theory Spec2Isabelle
  imports Complex_Main "HOL-Library.Char_ord" "HOL-Library.List_Lexorder" "HOL-Library.Multiset"
begin

section \<open>Values and the host environment\<close>

text \<open>
  Cell values are the primitive JavaScript values. Numbers are idealised as exact
  rationals (plus NaN); strings are sequences of 8-bit characters, which covers the
  ASCII and Latin-1 range of code units.
\<close>

datatype jsval = JUndefined | JNull | JBool bool | JNum rat | JNaN | JStr string

text \<open>
  The \<^verbatim>\<open>sensitivity\<close> option of a locale comparison.
\<close>

datatype sensitivity = Base | Accent | Case | Variant

text \<open>
  What belongs to the JavaScript host and not to the repository, as far as the model
  does not fix it, is a parameter:
  \<^item> \<open>collate locale sens a b\<close> is the host's collation of \<open>a\<close> and \<open>b\<close> for a locale
    and a sensitivity, consulted for the strings whose collation is not written out
    below;
  \<^item> \<open>stringToNumber s\<close> is the numeric reading of a string under \<^verbatim>\<open>ToNumber\<close>
    (\<open>None\<close> stands for NaN);
  \<^item> \<open>position cmp n i\<close> is the place at which \<^verbatim>\<open>Array.prototype.sort\<close> leaves the
    element that stood at index \<open>i\<close> of an array of \<open>n\<close> elements, when the comparison
    \<open>cmp\<close> (given on indices) is not a consistent one and the order is the host's to
    choose.
\<close>

record host =
  collate :: "string \<Rightarrow> sensitivity \<Rightarrow> string \<Rightarrow> string \<Rightarrow> int"
  stringToNumber :: "string \<Rightarrow> rat option"
  position :: "(nat \<Rightarrow> nat \<Rightarrow> int) \<Rightarrow> nat \<Rightarrow> nat \<Rightarrow> nat"

text \<open>\<^verbatim>\<open>ToNumber\<close> on primitives.\<close>

fun toNumber :: "host \<Rightarrow> jsval \<Rightarrow> rat option" where
  "toNumber H JUndefined = None"
| "toNumber H JNull = Some 0"
| "toNumber H (JBool b) = Some (if b then 1 else 0)"
| "toNumber H (JNum x) = Some x"
| "toNumber H JNaN = None"
| "toNumber H (JStr s) = stringToNumber H s"

text \<open>Numeric \<^verbatim>\<open><\<close>: false as soon as one side is NaN.\<close>

fun num_lt :: "rat option \<Rightarrow> rat option \<Rightarrow> bool" where
  "num_lt (Some x) (Some y) = (x < y)"
| "num_lt _ _ = False"

text \<open>
  The relational operators \<^verbatim>\<open>a < b\<close> and \<^verbatim>\<open>a > b\<close> on primitives: two strings
  are compared by code units, anything else numerically.
\<close>

fun js_lt :: "host \<Rightarrow> jsval \<Rightarrow> jsval \<Rightarrow> bool" where
  "js_lt H (JStr s) (JStr t) = (s < t)"
| "js_lt H a b = num_lt (toNumber H a) (toNumber H b)"

definition js_gt :: "host \<Rightarrow> jsval \<Rightarrow> jsval \<Rightarrow> bool" where
  "js_gt H a b = js_lt H b a"

fun typeof_string :: "jsval \<Rightarrow> bool" where
  "typeof_string (JStr s) = True"
| "typeof_string _ = False"

section \<open>sort.ts\<close>

text \<open>
  A row is a plain object: its own properties in order. Reading a property that the
  row does not have gives \<^verbatim>\<open>undefined\<close>.
\<close>

type_synonym row = "(string \<times> jsval) list"

definition getProperty :: "row \<Rightarrow> string \<Rightarrow> jsval" where
  "getProperty r p = (case map_of r p of None \<Rightarrow> JUndefined | Some v \<Rightarrow> v)"

text \<open>
  An accessor of a column is either a function of the row or the name of a property
  (\<^verbatim>\<open>typeof property === 'function' ? property(row) : row[property]\<close>).
\<close>

datatype accessor = Fn "row \<Rightarrow> jsval" | Prop string

fun access :: "accessor \<Rightarrow> row \<Rightarrow> jsval" where
  "access (Fn f) r = f r"
| "access (Prop p) r = getProperty r p"

record GridColumn =
  key :: string
  property :: accessor
  sortValue :: "accessor option"
  reverseSortOrder :: "bool option"
  width :: rat
  label :: string

datatype SortOrder = Ascending | Descending | Undefined

record FieldSortOrder =
  key :: string
  order :: SortOrder

definition getCellValue :: "row \<Rightarrow> GridColumn \<Rightarrow> jsval" where
  "getCellValue r column =
     (let value = access (property column) r
      in if value = JNull \<or> value = JUndefined then JStr [] else value)"

definition getCellSortValue :: "row \<Rightarrow> GridColumn \<Rightarrow> jsval" where
  "getCellSortValue r column =
     (case sortValue column of
        None \<Rightarrow> getCellValue r column
      | Some sv \<Rightarrow> access sv r)"

text \<open>
  \<^verbatim>\<open>a.localeCompare(b, locale, { sensitivity })\<close>. For the locale \<^verbatim>\<open>en\<close> at base
  sensitivity, two strings of ASCII letters are collated by the alphabet, letter by
  letter, with no regard to case, a proper prefix first; the answer is \<open>-1\<close>, \<open>0\<close> or
  \<open>1\<close>. Every other collation is the host's.
\<close>

definition isLetter :: "char \<Rightarrow> bool" where
  "isLetter c = (CHR ''A'' \<le> c \<and> c \<le> CHR ''Z'' \<or> CHR ''a'' \<le> c \<and> c \<le> CHR ''z'')"

definition toLowerASCII :: "char \<Rightarrow> char" where
  "toLowerASCII c =
     (if CHR ''A'' \<le> c \<and> c \<le> CHR ''Z'' then char_of (of_char c + (32::nat)) else c)"

fun lexCompare :: "string \<Rightarrow> string \<Rightarrow> int" where
  "lexCompare [] [] = 0"
| "lexCompare [] (y # ys) = - 1"
| "lexCompare (x # xs) [] = 1"
| "lexCompare (x # xs) (y # ys) =
     (if x < y then - 1 else if y < x then 1 else lexCompare xs ys)"

definition letterCollate :: "string \<Rightarrow> string \<Rightarrow> int" where
  "letterCollate s t = lexCompare (map toLowerASCII s) (map toLowerASCII t)"

definition String_localeCompare :: "host \<Rightarrow> string \<Rightarrow> string \<Rightarrow> string \<Rightarrow> sensitivity \<Rightarrow> int" where
  "String_localeCompare H a b locale sens =
     (if locale = ''en'' \<and> sens = Base \<and> list_all isLetter a \<and> list_all isLetter b
      then letterCollate a b
      else collate H locale sens a b)"

fun compare :: "host \<Rightarrow> jsval \<Rightarrow> jsval \<Rightarrow> int" where
  "compare H (JStr s) (JStr t) = String_localeCompare H s t ''en'' Base"
| "compare H a b = (if js_lt H a b then - 1 else if js_gt H a b then 1 else 0)"

text \<open>
  The body of the comparison callback of \<^verbatim>\<open>sort\<close>: the loop over the entries of
  the order that is in effect.
\<close>

fun compareEntries :: "host \<Rightarrow> GridColumn list \<Rightarrow> FieldSortOrder list \<Rightarrow> row \<Rightarrow> row \<Rightarrow> int" where
  "compareEntries H cols [] a b = 0"
| "compareEntries H cols (entry # rest) a b =
     (case find (\<lambda>x. GridColumn.key x = key entry) cols of
        None \<Rightarrow> compareEntries H cols rest a b
      | Some column \<Rightarrow>
          (let A = getCellSortValue a column;
               B = getCellSortValue b column;
               result = (case order entry of
                           Ascending \<Rightarrow> compare H A B
                         | Descending \<Rightarrow> - compare H A B
                         | Undefined \<Rightarrow> 0);
               result = (if reverseSortOrder column = Some True then - result else result)
           in if result \<noteq> 0 then result else compareEntries H cols rest a b))"

text \<open>
  \<^verbatim>\<open>Array.prototype.sort\<close> with a comparison callback belongs to the host. The
  language standard fixes its result only for a consistent comparison: one that, on
  the elements of the array, calls every element equal to itself, has symmetric and
  transitive ties, and is transitive in less and in greater.
\<close>

definition consistentOn :: "('a \<Rightarrow> 'a \<Rightarrow> int) \<Rightarrow> 'a list \<Rightarrow> bool" where
  "consistentOn cmp xs \<longleftrightarrow>
     (\<forall>a\<in>set xs. \<forall>b\<in>set xs. \<forall>c\<in>set xs.
        cmp a a = 0
        \<and> (cmp a b = 0 \<longrightarrow> cmp b a = 0)
        \<and> (cmp a b = 0 \<and> cmp b c = 0 \<longrightarrow> cmp a c = 0)
        \<and> (cmp a b < 0 \<and> cmp b c < 0 \<longrightarrow> cmp a c < 0)
        \<and> (0 < cmp a b \<and> 0 < cmp b c \<longrightarrow> 0 < cmp a c))"

text \<open>
  For a consistent comparison the standard asks for the sorted order in which equal
  elements keep their sequence. There is one such order; stable insertion computes it:
  an element goes in front of the first later element that it does not compare
  greater than.
\<close>

fun insertBy :: "('a \<Rightarrow> 'a \<Rightarrow> int) \<Rightarrow> 'a \<Rightarrow> 'a list \<Rightarrow> 'a list" where
  "insertBy cmp x [] = [x]"
| "insertBy cmp x (y # ys) = (if cmp x y \<le> 0 then x # y # ys else y # insertBy cmp x ys)"

fun stableSort :: "('a \<Rightarrow> 'a \<Rightarrow> int) \<Rightarrow> 'a list \<Rightarrow> 'a list" where
  "stableSort cmp [] = []"
| "stableSort cmp (x # xs) = insertBy cmp x (stableSort cmp xs)"

text \<open>
  For any other comparison the order of the result is the host's choice: the elements
  are put at the places the host names (elements named the same place stay in
  sequence).
\<close>

definition hostOrder :: "host \<Rightarrow> ('a \<Rightarrow> 'a \<Rightarrow> int) \<Rightarrow> 'a list \<Rightarrow> 'a list" where
  "hostOrder H cmp xs =
     map (nth xs)
       (sort_key (position H (\<lambda>i j. cmp (xs ! i) (xs ! j)) (length xs)) [0 ..< length xs])"

definition array_sort :: "host \<Rightarrow> ('a \<Rightarrow> 'a \<Rightarrow> int) \<Rightarrow> 'a list \<Rightarrow> 'a list" where
  "array_sort H cmp xs = (if consistentOn cmp xs then stableSort cmp xs else hostOrder H cmp xs)"

section \<open>The store\<close>

text \<open>
  Arrays and sort-order entries are objects with identity: they live in a store and
  are passed around by reference. A reference is a natural number; \<open>nxt\<close> is the
  next free one, and every allocation takes it.
\<close>

record heap =
  entries :: "nat \<Rightarrow> FieldSortOrder"
  orders :: "nat \<Rightarrow> nat list"
  rowArrays :: "nat \<Rightarrow> row list"
  nxt :: nat

definition newEntry :: "heap \<Rightarrow> FieldSortOrder \<Rightarrow> heap \<times> nat" where
  "newEntry h v = (h\<lparr>entries := (entries h)(nxt h := v), nxt := Suc (nxt h)\<rparr>, nxt h)"

definition newOrder :: "heap \<Rightarrow> nat list \<Rightarrow> heap \<times> nat" where
  "newOrder h rs = (h\<lparr>orders := (orders h)(nxt h := rs), nxt := Suc (nxt h)\<rparr>, nxt h)"

definition newRowArray :: "heap \<Rightarrow> row list \<Rightarrow> heap \<times> nat" where
  "newRowArray h rs = (h\<lparr>rowArrays := (rowArrays h)(nxt h := rs), nxt := Suc (nxt h)\<rparr>, nxt h)"

text \<open>The entries of a sort-order array, read through its references.\<close>

definition readOrder :: "heap \<Rightarrow> nat \<Rightarrow> FieldSortOrder list" where
  "readOrder h a = map (entries h) (orders h a)"

text \<open>
  \<^verbatim>\<open>(sortOrder && sortOrder.length > 0) ? sortOrder : (defaultSortOrder || [])\<close>,
  as the entries to iterate.
\<close>

definition effectiveOrder :: "heap \<Rightarrow> nat option \<Rightarrow> nat option \<Rightarrow> FieldSortOrder list" where
  "effectiveOrder h sortOrder defaultSortOrder =
     (if (case sortOrder of None \<Rightarrow> False | Some a \<Rightarrow> length (orders h a) > 0)
      then readOrder h (the sortOrder)
      else (case defaultSortOrder of None \<Rightarrow> [] | Some d \<Rightarrow> readOrder h d))"

text \<open>
  \<^verbatim>\<open>sort(rows, columns, sortOrder, defaultSortOrder)\<close>: sorts the array behind
  \<open>rows\<close> where it is and returns the reference it was given.
\<close>

definition sort_ts :: "host \<Rightarrow> heap \<Rightarrow> nat \<Rightarrow> GridColumn list \<Rightarrow> nat option \<Rightarrow> nat option \<Rightarrow> heap \<times> nat" where
  "sort_ts H h rows cols sortOrder defaultSortOrder =
     (h\<lparr>rowArrays := (rowArrays h)
          (rows := array_sort H
             (\<lambda>a b. compareEntries H cols (effectiveOrder h sortOrder defaultSortOrder) a b)
             (rowArrays h rows))\<rparr>,
      rows)"

section \<open>The grid\<close>

text \<open>
  The variables that the handlers of \<^verbatim>\<open>createGrid\<close> close over. \<open>onSort\<close> is the
  optional callback: it is given the entries of the new order and answers whether it
  called \<^verbatim>\<open>preventDefault\<close>. \<open>onScroll\<close> tells whether a scroll callback is set.
\<close>

record grid =
  columns :: "GridColumn list"
  defaultSortOrder :: "nat option"
  onSort :: "(FieldSortOrder list \<Rightarrow> bool) option"
  onScroll :: bool
  rowHeight :: rat
  rows :: nat
  sortOrder :: nat
  gridHeight :: rat
  visibleRowCount :: int
  firstVisibleRowIndex :: int
  lastVisibleRowIndex :: int
  totalColumnWidth :: rat
  totalRowHeight :: rat
  renderCount :: nat

text \<open>What the layout reports when a handler runs.\<close>

record dom =
  scrollLeft :: rat
  scrollTop :: rat
  clientHeight :: rat

datatype effect =
    SyncScrollLeft rat
  | ScrollAreaWidth rat
  | ScrollAreaHeight rat
  | ScrollEvent rat
  | SortEvent nat

definition recomputeVisibleArea :: "dom \<Rightarrow> heap \<Rightarrow> grid \<Rightarrow> bool \<times> grid \<times> effect list" where
  "recomputeVisibleArea d h g =
     (let newGridHeight = clientHeight d;
          newVisibleRowCount = \<lceil>newGridHeight / rowHeight g\<rceil>;
          newFirstVisibleRowIndex = \<lceil>scrollTop d / rowHeight g\<rceil>;
          newLastVisibleRowIndex = newFirstVisibleRowIndex + newVisibleRowCount - 1;
          newTotalColumnWidth = foldl (\<lambda>sum x. sum + width x) 0 (columns g);
          newTotalRowHeight = of_nat (length (rowArrays h (rows g))) * rowHeight g
      in if newGridHeight \<noteq> gridHeight g \<or>
            newVisibleRowCount \<noteq> visibleRowCount g \<or>
            newFirstVisibleRowIndex \<noteq> firstVisibleRowIndex g \<or>
            newLastVisibleRowIndex \<noteq> lastVisibleRowIndex g \<or>
            newTotalColumnWidth \<noteq> totalColumnWidth g \<or>
            newTotalRowHeight \<noteq> totalRowHeight g
         then (True,
               g\<lparr>gridHeight := newGridHeight,
                 visibleRowCount := newVisibleRowCount,
                 firstVisibleRowIndex := newFirstVisibleRowIndex,
                 lastVisibleRowIndex := newLastVisibleRowIndex,
                 totalColumnWidth := newTotalColumnWidth,
                 totalRowHeight := newTotalRowHeight\<rparr>,
               [SyncScrollLeft (scrollLeft d)]
               @ (if newTotalColumnWidth \<noteq> totalColumnWidth g
                  then [ScrollAreaWidth newTotalColumnWidth] else [])
               @ (if newTotalRowHeight \<noteq> totalRowHeight g
                  then [ScrollAreaHeight newTotalRowHeight] else [])
               @ (if newFirstVisibleRowIndex \<noteq> firstVisibleRowIndex g \<and> onScroll g
                  then [ScrollEvent (scrollTop d)] else []))
         else (False, g, [SyncScrollLeft (scrollLeft d)]))"

text \<open>\<^verbatim>\<open>createRows\<close> rebuilds the row elements; of its work only the counter is state.\<close>

definition createRows :: "grid \<Rightarrow> grid" where
  "createRows g = g\<lparr>renderCount := Suc (renderCount g)\<rparr>"

definition updateRows :: "bool \<Rightarrow> dom \<Rightarrow> heap \<Rightarrow> grid \<Rightarrow> grid \<times> effect list" where
  "updateRows forceUpdate d h g =
     (case recomputeVisibleArea d h g of
        (changed, g', effs) \<Rightarrow> if changed \<or> forceUpdate then (createRows g', effs) else (g', effs))"

text \<open>
  \<^verbatim>\<open>if (defaultSortOrder)\<close> tests for presence: an array, even an empty one, counts.
\<close>

definition cycleColumnSortOrder :: "grid \<Rightarrow> SortOrder \<Rightarrow> SortOrder" where
  "cycleColumnSortOrder g ord =
     (if ord = Undefined then Ascending
      else if ord = Ascending then Descending
      else if defaultSortOrder g \<noteq> None then Undefined
      else Ascending)"

text \<open>\<^verbatim>\<open>rows = sort([...rows], columns, sortOrder, defaultSortOrder)\<close>\<close>

definition sortRows :: "host \<Rightarrow> heap \<times> grid \<Rightarrow> heap \<times> grid" where
  "sortRows H s =
     (case s of (h, g) \<Rightarrow>
        (case newRowArray h (rowArrays h (rows g)) of (h1, copy) \<Rightarrow>
           (case sort_ts H h1 copy (columns g) (Some (sortOrder g)) (defaultSortOrder g) of
              (h2, result) \<Rightarrow> (h2, g\<lparr>rows := result\<rparr>))))"

text \<open>
  \<^verbatim>\<open>JSON.parse(JSON.stringify(sortOrder))\<close>. The text carries the key and the order
  of every entry in sequence (an undefined order is left out of the text and reads
  back as undefined); parsing it builds new entry objects and a new array.
\<close>

definition JSON_stringify :: "heap \<Rightarrow> nat \<Rightarrow> FieldSortOrder list" where
  "JSON_stringify h a = readOrder h a"

fun parseEntries :: "heap \<Rightarrow> FieldSortOrder list \<Rightarrow> heap \<times> nat list" where
  "parseEntries h [] = (h, [])"
| "parseEntries h (v # vs) =
     (case newEntry h v of (h1, r) \<Rightarrow>
        (case parseEntries h1 vs of (h2, rs) \<Rightarrow> (h2, r # rs)))"

definition JSON_parse :: "heap \<Rightarrow> FieldSortOrder list \<Rightarrow> heap \<times> nat" where
  "JSON_parse h vs = (case parseEntries h vs of (h1, rs) \<Rightarrow> newOrder h1 rs)"

record MouseEvent =
  datasetKey :: "string option"
  ctrlKey :: bool
  shiftKey :: bool

datatype error = NoColumnKey

text \<open>
  The first part of \<^verbatim>\<open>onColumnHeaderClick\<close>, from the copy of the current order to
  the assignment \<^verbatim>\<open>sortOrder = newSortOrder\<close>.
\<close>

definition clickSortOrder :: "MouseEvent \<Rightarrow> string \<Rightarrow> heap \<times> grid \<Rightarrow> heap \<times> grid" where
  "clickSortOrder e columnKey s =
     (case s of (h, g) \<Rightarrow>
     (case JSON_parse h (JSON_stringify h (sortOrder g)) of (h1, copied) \<Rightarrow>
     (case (case find (\<lambda>r. key (entries h1 r) = columnKey) (orders h1 copied) of
              None \<Rightarrow> newEntry h1 \<lparr>key = columnKey, order = Undefined\<rparr>
            | Some r \<Rightarrow> (h1, r)) of (h2, entry) \<Rightarrow>
     (case (if \<not> ctrlKey e \<and> \<not> shiftKey e
            then newOrder h2 []
            else newOrder h2 (filter (\<lambda>r. key (entries h2 r) \<noteq> columnKey) (orders h2 copied)))
      of (h3, newSortOrder) \<Rightarrow>
     (let h4 = h3\<lparr>entries := (entries h3)
                   (entry := (entries h3 entry)
                      \<lparr>order := cycleColumnSortOrder g (order (entries h3 entry))\<rparr>)\<rparr>;
          h5 = (if order (entries h4 entry) \<noteq> Undefined
                then h4\<lparr>orders := (orders h4)(newSortOrder := orders h4 newSortOrder @ [entry])\<rparr>
                else h4)
      in (h5, g\<lparr>sortOrder := newSortOrder\<rparr>))))))"

text \<open>
  The handler as a whole. A header element without a key, or with an empty one, makes
  it throw. Otherwise the new order is announced to \<open>onSort\<close>, and unless the callback
  prevented it the rows are sorted and drawn again.
\<close>

definition onColumnHeaderClick ::
  "host \<Rightarrow> dom \<Rightarrow> MouseEvent \<Rightarrow> heap \<times> grid \<Rightarrow> error + (heap \<times> grid \<times> effect list)" where
  "onColumnHeaderClick H d e s =
     (case datasetKey e of
        None \<Rightarrow> Inl NoColumnKey
      | Some columnKey \<Rightarrow>
          if columnKey = [] then Inl NoColumnKey
          else
            (case clickSortOrder e columnKey s of (h1, g1) \<Rightarrow>
               (let handled = (case onSort g1 of
                                 None \<Rightarrow> False
                               | Some f \<Rightarrow> f (readOrder h1 (sortOrder g1)));
                    announced = (case onSort g1 of None \<Rightarrow> [] | Some f \<Rightarrow> [SortEvent (sortOrder g1)])
                in if \<not> handled
                   then (case sortRows H (h1, g1) of (h2, g2) \<Rightarrow>
                           (case updateRows True d h2 g2 of (g3, effs) \<Rightarrow>
                              Inr (h2, g3, announced @ effs)))
                   else Inr (h1, g1, announced))))"

text \<open>The order that the grid holds at the moment, and the state of one column in it.\<close>

definition currentOrder :: "heap \<times> grid \<Rightarrow> FieldSortOrder list" where
  "currentOrder s = readOrder (fst s) (sortOrder (snd s))"

definition columnState :: "string \<Rightarrow> FieldSortOrder list \<Rightarrow> SortOrder" where
  "columnState k ord = (case find (\<lambda>x. key x = k) ord of None \<Rightarrow> Undefined | Some x \<Rightarrow> order x)"

section \<open>The comparison as the specification words it\<close>

text \<open>
  For one entry: no verdict when no column has the entry's key; otherwise the two
  sort values are compared, the result negated for a descending entry and negated
  again for a column with the reverse flag.
\<close>

definition spec_entryResult :: "host \<Rightarrow> GridColumn list \<Rightarrow> row \<Rightarrow> row \<Rightarrow> FieldSortOrder \<Rightarrow> int option" where
  "spec_entryResult H cols a b e =
     (case find (\<lambda>c. GridColumn.key c = key e) cols of
        None \<Rightarrow> None
      | Some c \<Rightarrow>
          Some ((if reverseSortOrder c = Some True then - 1 else 1) *
                ((if order e = Descending then - 1 else 1) *
                 compare H (getCellSortValue a c) (getCellSortValue b c))))"

text \<open>The first verdict that is not zero, from left to right; equal when there is none.\<close>

fun spec_firstNonzero :: "int option list \<Rightarrow> int" where
  "spec_firstNonzero [] = 0"
| "spec_firstNonzero (None # rs) = spec_firstNonzero rs"
| "spec_firstNonzero (Some r # rs) = (if r \<noteq> 0 then r else spec_firstNonzero rs)"

text \<open>
  A stable sort as the specification words it: the output holds the rows of the input,
  no row stands before one that it compares greater than, and the rows of a set whose
  members all tie with one another are in the sequence they had in the input.
\<close>

definition stablySorted :: "('a \<Rightarrow> 'a \<Rightarrow> int) \<Rightarrow> 'a set \<Rightarrow> 'a list \<Rightarrow> 'a list \<Rightarrow> bool" where
  "stablySorted cmp S inp out \<longleftrightarrow>
     mset out = mset inp
     \<and> sorted_wrt (\<lambda>a b. cmp a b \<le> 0) out
     \<and> ((\<forall>x\<in>S. \<forall>y\<in>S. cmp x y = 0) \<longrightarrow>
          filter (\<lambda>r. r \<in> S) out = filter (\<lambda>r. r \<in> S) inp)"

section \<open>A host and data to evaluate on\<close>

text \<open>
  What V8 does to an array of fewer than 64 elements. The run at the front is
  measured: it is descending when the second element compares less than the first, and
  it goes on while each element compares less than the one before it (descending) or
  not less (ascending); a descending run is reversed. Each element after the run is
  then put into the sorted front at the place that a binary search finds for it.
\<close>

fun countRun :: "('a \<Rightarrow> 'a \<Rightarrow> int) \<Rightarrow> bool \<Rightarrow> 'a \<Rightarrow> 'a list \<Rightarrow> nat" where
  "countRun cmp isDescending previous [] = 0"
| "countRun cmp isDescending previous (current # rest) =
     (if (if isDescending then 0 \<le> cmp current previous else cmp current previous < 0)
      then 0
      else Suc (countRun cmp isDescending current rest))"

definition countAndMakeRun :: "('a \<Rightarrow> 'a \<Rightarrow> int) \<Rightarrow> 'a list \<Rightarrow> nat \<times> 'a list" where
  "countAndMakeRun cmp xs =
     (case xs of
        [] \<Rightarrow> (0, [])
      | [x] \<Rightarrow> (1, [x])
      | elementHigh # elementLow # rest \<Rightarrow>
          (let isDescending = cmp elementLow elementHigh < 0;
               runLength = 2 + countRun cmp isDescending elementLow rest
           in (runLength,
               if isDescending then rev (take runLength xs) @ drop runLength xs else xs)))"

function binarySearch :: "('a \<Rightarrow> 'a \<Rightarrow> int) \<Rightarrow> 'a \<Rightarrow> 'a list \<Rightarrow> nat \<Rightarrow> nat \<Rightarrow> nat" where
  "binarySearch cmp pivot xs left right =
     (if left < right
      then (let mid = left + (right - left) div 2
            in if cmp pivot (xs ! mid) < 0
               then binarySearch cmp pivot xs left mid
               else binarySearch cmp pivot xs (mid + 1) right)
      else left)"
  by pat_completeness auto
termination
  by (relation "measure (\<lambda>(cmp, pivot, xs, left, right). right - left)") auto

declare binarySearch.simps [simp del]

fun binaryInsertionSort :: "('a \<Rightarrow> 'a \<Rightarrow> int) \<Rightarrow> 'a list \<Rightarrow> 'a list \<Rightarrow> 'a list" where
  "binaryInsertionSort cmp front [] = front"
| "binaryInsertionSort cmp front (pivot # rest) =
     (let left = binarySearch cmp pivot front 0 (length front)
      in binaryInsertionSort cmp (take left front @ pivot # drop left front) rest)"

definition v8Sort :: "('a \<Rightarrow> 'a \<Rightarrow> int) \<Rightarrow> 'a list \<Rightarrow> 'a list" where
  "v8Sort cmp xs =
     (case countAndMakeRun cmp xs of
        (runLength, ys) \<Rightarrow> binaryInsertionSort cmp (take runLength ys) (drop runLength ys))"

fun indexOf :: "'a \<Rightarrow> 'a list \<Rightarrow> nat" where
  "indexOf x [] = 0"
| "indexOf x (y # ys) = (if x = y then 0 else Suc (indexOf x ys))"

text \<open>
  A host to evaluate with. Where the model leaves the collation to the host, this one
  compares code units; it reads the empty string as zero and a string of decimal
  digits as its number, and is not meant for other numeric strings; where the order of
  a sort is the host's, it is the one V8 gives to a short array.
\<close>

fun digitsToNat :: "nat \<Rightarrow> string \<Rightarrow> nat option" where
  "digitsToNat acc [] = Some acc"
| "digitsToNat acc (c # cs) =
     (if CHR ''0'' \<le> c \<and> c \<le> CHR ''9''
      then digitsToNat (10 * acc + (of_char c - 48)) cs
      else None)"

definition decimalToNumber :: "string \<Rightarrow> rat option" where
  "decimalToNumber s = map_option of_nat (digitsToNat 0 s)"

definition sampleHost :: host where
  "sampleHost = \<lparr>collate = (\<lambda>locale sens a b. lexCompare a b),
                  stringToNumber = decimalToNumber,
                  position = (\<lambda>cmp n i. indexOf i (v8Sort cmp [0 ..< n]))\<rparr>"

definition columnV :: GridColumn where
  "columnV = \<lparr>GridColumn.key = ''v'', property = Fn (\<lambda>r. getProperty r ''v''),
              sortValue = None, reverseSortOrder = None, width = 100, label = ''V''\<rparr>"

definition rowA :: row where "rowA = [(''k'', JStr ''a''), (''v'', JNum 1)]"
definition rowB :: row where "rowB = [(''k'', JStr ''b''), (''v'', JNum 1)]"
definition rowC :: row where "rowC = [(''k'', JStr ''c''), (''v'', JNum 2)]"

text \<open>Rows whose values of \<open>v\<close> are 3, 2, the string "abc" and 1.\<close>

definition mixedA :: row where "mixedA = [(''k'', JStr ''a''), (''v'', JNum 3)]"
definition mixedB :: row where "mixedB = [(''k'', JStr ''b''), (''v'', JNum 2)]"
definition mixedC :: row where "mixedC = [(''k'', JStr ''c''), (''v'', JStr ''abc'')]"
definition mixedD :: row where "mixedD = [(''k'', JStr ''d''), (''v'', JNum 1)]"

text \<open>
  A store with the sort order \<open>[{v, ascending}]\<close> at reference 0 (its entry at
  reference 1) and a given row array at reference 2.
\<close>

definition sampleHeap :: "row list \<Rightarrow> heap" where
  "sampleHeap rs =
     \<lparr>entries = (\<lambda>_. \<lparr>key = [], order = Undefined\<rparr>)(1 := \<lparr>key = ''v'', order = Ascending\<rparr>),
      orders = (\<lambda>_. [])(0 := [1]),
      rowArrays = (\<lambda>_. [])(2 := rs),
      nxt = 3\<rparr>"

definition sampleGrid :: "nat option \<Rightarrow> grid" where
  "sampleGrid dflt =
     \<lparr>columns = [columnV], defaultSortOrder = dflt, onSort = None, onScroll = False,
      rowHeight = 20, rows = 2, sortOrder = 0, gridHeight = 0, visibleRowCount = 0,
      firstVisibleRowIndex = 0, lastVisibleRowIndex = 0, totalColumnWidth = 0,
      totalRowHeight = 0, renderCount = 0\<rparr>"

definition sampleDom :: dom where
  "sampleDom = \<lparr>scrollLeft = 0, scrollTop = 1, clientHeight = 90\<rparr>"

definition plainClick :: MouseEvent where
  "plainClick = \<lparr>datasetKey = Some ''v'', ctrlKey = False, shiftKey = False\<rparr>"

definition shiftClick :: MouseEvent where
  "shiftClick = \<lparr>datasetKey = Some ''v'', ctrlKey = False, shiftKey = True\<rparr>"

section \<open>Values and comparison\<close>

lemma compare_not_both_strings:
  "\<not> (typeof_string a \<and> typeof_string b) \<Longrightarrow>
     compare H a b = (if js_lt H a b then - 1 else if js_gt H a b then 1 else 0)"
  by (cases a; cases b) simp_all

lemma lexCompare_same: "lexCompare s s = 0"
  by (induction s) simp_all

lemma sample_collation:
  "letterCollate ''Apple'' ''apple'' = 0" "letterCollate ''Apple'' ''Banana'' = - 1"
  "list_all isLetter ''Apple''" "list_all isLetter ''apple''" "list_all isLetter ''Banana''"
  "decimalToNumber ''12'' = Some 12"
  "letterCollate ''Zebra'' ''apple'' = 1" "list_all isLetter ''Zebra''"
  by code_simp+

lemma compare_letters:
  "list_all isLetter s \<Longrightarrow> list_all isLetter t \<Longrightarrow>
     compare H (JStr s) (JStr t) = lexCompare (map toLowerASCII s) (map toLowerASCII t)"
  by (simp add: String_localeCompare_def letterCollate_def)

text \<open>
  C7. For two strings \<open>compare\<close> is the locale comparison for \<^verbatim>\<open>en\<close> at base
  sensitivity: strings of letters are ordered by the alphabet with no regard to case,
  so "Apple" and "apple" compare equal and "Apple" comes before "Banana", whatever the
  host. For two values that are not both strings it is \<open>-1\<close> when \<open>a < b\<close>, \<open>1\<close> when
  \<open>a > b\<close> and \<open>0\<close> otherwise.
\<close>

theorem compare_strings_locale_else_generic:
  "compare H (JStr s) (JStr t) = String_localeCompare H s t ''en'' Base
   \<and> (list_all isLetter s \<and> list_all isLetter t \<longrightarrow>
        compare H (JStr s) (JStr t) = lexCompare (map toLowerASCII s) (map toLowerASCII t))
   \<and> (list_all isLetter s \<and> list_all isLetter t \<and> map toLowerASCII s = map toLowerASCII t \<longrightarrow>
        compare H (JStr s) (JStr t) = 0)
   \<and> compare H (JStr ''Apple'') (JStr ''apple'') = 0
   \<and> compare H (JStr ''Apple'') (JStr ''Banana'') < 0
   \<and> (\<not> (typeof_string a \<and> typeof_string b) \<longrightarrow>
        compare H a b = (if js_lt H a b then - 1 else if js_gt H a b then 1 else 0))"
proof (intro conjI impI)
  show "compare H (JStr s) (JStr t) = String_localeCompare H s t ''en'' Base"
    by simp
next
  assume "list_all isLetter s \<and> list_all isLetter t"
  then show "compare H (JStr s) (JStr t) = lexCompare (map toLowerASCII s) (map toLowerASCII t)"
    by (simp only: compare_letters)
next
  assume "list_all isLetter s \<and> list_all isLetter t \<and> map toLowerASCII s = map toLowerASCII t"
  then show "compare H (JStr s) (JStr t) = 0"
    by (simp only: compare_letters lexCompare_same)
next
  have "compare H (JStr ''Apple'') (JStr ''apple'') = letterCollate ''Apple'' ''apple''"
    by (simp only: compare_letters [OF sample_collation(3) sample_collation(4)] letterCollate_def)
  then show "compare H (JStr ''Apple'') (JStr ''apple'') = 0"
    by (simp only: sample_collation)
next
  have "compare H (JStr ''Apple'') (JStr ''Banana'') = letterCollate ''Apple'' ''Banana''"
    by (simp only: compare_letters [OF sample_collation(3) sample_collation(5)] letterCollate_def)
  then show "compare H (JStr ''Apple'') (JStr ''Banana'') < 0"
    by (simp only: sample_collation)
next
  assume "\<not> (typeof_string a \<and> typeof_string b)"
  then show "compare H a b = (if js_lt H a b then - 1 else if js_gt H a b then 1 else 0)"
    by (rule compare_not_both_strings)
qed

theorem compare_strings_locale_else_generic_witness:
  "compare sampleHost (JStr ''Zebra'') (JStr ''apple'') = 1
   \<and> compare sampleHost (JStr ''Apple'') (JStr ''apple'') = 0
   \<and> compare sampleHost (JStr ''Apple'') (JStr ''Banana'') < 0
   \<and> compare sampleHost (JNum 1) (JStr ''12'') = - 1"
proof -
  note t = compare_strings_locale_else_generic
             [where H = sampleHost and s = "''Zebra''" and t = "''apple''"
                and a = "JNum 1" and b = "JStr ''12''"]
  have "compare sampleHost (JStr ''Zebra'') (JStr ''apple'')
          = lexCompare (map toLowerASCII ''Zebra'') (map toLowerASCII ''apple'')"
    by (rule t [THEN conjunct2, THEN conjunct1, rule_format])
       (simp only: sample_collation simp_thms)
  then have z: "compare sampleHost (JStr ''Zebra'') (JStr ''apple'') = 1"
    by (simp only: letterCollate_def [symmetric] sample_collation)
  have "compare sampleHost (JNum 1) (JStr ''12'')
          = (if js_lt sampleHost (JNum 1) (JStr ''12'') then - 1
             else if js_gt sampleHost (JNum 1) (JStr ''12'') then 1 else 0)"
    by (rule t [THEN conjunct2, THEN conjunct2, THEN conjunct2, THEN conjunct2, THEN conjunct2,
                rule_format]) simp
  then have n: "compare sampleHost (JNum 1) (JStr ''12'') = - 1"
    by (simp add: sampleHost_def sample_collation)
  from t z n show ?thesis by (simp only: simp_thms)
qed



lemma cycle_steps:
  "cycleColumnSortOrder g Undefined = Ascending"
  "cycleColumnSortOrder g Ascending = Descending"
  "cycleColumnSortOrder g Descending = (if defaultSortOrder g \<noteq> None then Undefined else Ascending)"
  by (simp_all add: cycleColumnSortOrder_def)

lemma cycle_no_default_iter:
  "defaultSortOrder g = None \<Longrightarrow> 0 < n \<Longrightarrow>
     (cycleColumnSortOrder g ^^ n) Undefined = (if odd n then Ascending else Descending)"
proof (induction n)
  case 0
  then show ?case by simp
next
  case (Suc n)
  show ?case
  proof (cases "n = 0")
    case True
    then show ?thesis by (simp add: cycle_steps)
  next
    case False
    with Suc have "(cycleColumnSortOrder g ^^ n) Undefined = (if odd n then Ascending else Descending)"
      by simp
    with Suc.prems show ?thesis by (simp add: cycle_steps)
  qed
qed

section \<open>The visible area\<close>







section \<open>The comparison callback\<close>

lemma compareEntries_unknown_column:
  "find (\<lambda>c. GridColumn.key c = key e) cols = None \<Longrightarrow>
     compareEntries H cols (e # rest) a b = compareEntries H cols rest a b"
  by simp

lemma compareEntries_undefined_order:
  "order e = Undefined \<Longrightarrow>
     compareEntries H cols (e # rest) a b = compareEntries H cols rest a b"
  by (simp add: Let_def split: option.split)

lemma compareEntries_all_undefined:
  "\<forall>e\<in>set ord. order e = Undefined \<Longrightarrow> compareEntries H cols ord a b = 0"
proof (induction ord)
  case Nil
  show ?case by simp
next
  case (Cons e rest)
  then have "order e = Undefined" and "compareEntries H cols rest a b = 0" by simp_all
  then show ?case by (simp only: compareEntries_undefined_order)
qed

lemma compareEntries_step:
  "order e \<noteq> Undefined \<Longrightarrow>
     compareEntries H cols (e # rest) a b =
       (case spec_entryResult H cols a b e of
          None \<Rightarrow> compareEntries H cols rest a b
        | Some r \<Rightarrow> if r \<noteq> 0 then r else compareEntries H cols rest a b)"
  by (cases "order e") (simp_all add: spec_entryResult_def Let_def split: option.split)

lemma compareEntries_first_nonzero:
  "\<forall>e\<in>set ord. order e \<noteq> Undefined \<Longrightarrow>
     compareEntries H cols ord a b = spec_firstNonzero (map (spec_entryResult H cols a b) ord)"
proof (induction ord)
  case Nil
  show ?case by simp
next
  case (Cons e rest)
  then have e: "order e \<noteq> Undefined"
    and IH: "compareEntries H cols rest a b = spec_firstNonzero (map (spec_entryResult H cols a b) rest)"
    by simp_all
  note step = compareEntries_step [OF e, of H cols rest a b]
  show ?case
    by (cases "spec_entryResult H cols a b e") (simp_all del: compareEntries.simps add: step IH)
qed

lemma spec_firstNonzero_all_tie:
  "\<forall>r\<in>set rs. r = None \<or> r = Some 0 \<Longrightarrow> spec_firstNonzero rs = 0"
  by (induction rs rule: spec_firstNonzero.induct) simp_all

text \<open>
  C4. Over an order whose entries are ascending or descending, the comparison of two
  rows is the first nonzero verdict of the entries from left to right, where an entry's
  verdict compares the two sort values of its column, negated for descending and
  negated again for a reversed column; an entry whose key names no column gives no
  verdict and is passed over; when every entry ties the rows compare equal.
\<close>

theorem compareEntries_left_to_right:
  assumes "\<forall>e\<in>set ord. order e \<noteq> Undefined"
  shows "compareEntries H cols ord a b = spec_firstNonzero (map (spec_entryResult H cols a b) ord)
     \<and> (\<forall>e rest. find (\<lambda>c. GridColumn.key c = key e) cols = None \<longrightarrow>
           compareEntries H cols (e # rest) a b = compareEntries H cols rest a b)
     \<and> ((\<forall>e\<in>set ord. spec_entryResult H cols a b e = None \<or> spec_entryResult H cols a b e = Some 0)
          \<longrightarrow> compareEntries H cols ord a b = 0)"
proof -
  have first: "compareEntries H cols ord a b = spec_firstNonzero (map (spec_entryResult H cols a b) ord)"
    using assms by (rule compareEntries_first_nonzero)
  have ties: "(\<forall>e\<in>set ord. spec_entryResult H cols a b e = None \<or> spec_entryResult H cols a b e = Some 0)
          \<longrightarrow> compareEntries H cols ord a b = 0"
    unfolding first by (auto intro!: spec_firstNonzero_all_tie)
  have skip: "\<forall>e rest. find (\<lambda>c. GridColumn.key c = key e) cols = None \<longrightarrow>
           compareEntries H cols (e # rest) a b = compareEntries H cols rest a b"
    by (intro allI impI) (rule compareEntries_unknown_column)
  from first skip ties show ?thesis
    by (intro conjI)
qed


theorem compareEntries_left_to_right_witness:
  "map order [\<lparr>key = ''zz'', order = Ascending\<rparr>, \<lparr>key = ''v'', order = Descending\<rparr>]
     = [Ascending, Descending]
   \<and> find (\<lambda>c. GridColumn.key c = key \<lparr>key = ''zz'', order = Ascending\<rparr>) [columnV] = None
   \<and> compareEntries sampleHost [columnV]
         [\<lparr>key = ''zz'', order = Ascending\<rparr>, \<lparr>key = ''v'', order = Descending\<rparr>] rowA rowC
       = compareEntries sampleHost [columnV] [\<lparr>key = ''v'', order = Descending\<rparr>] rowA rowC
   \<and> compareEntries sampleHost [columnV]
         [\<lparr>key = ''zz'', order = Ascending\<rparr>, \<lparr>key = ''v'', order = Descending\<rparr>] rowA rowC = 1
   \<and> map (spec_entryResult sampleHost [columnV] rowA rowB)
         [\<lparr>key = ''zz'', order = Ascending\<rparr>, \<lparr>key = ''v'', order = Descending\<rparr>]
       = [None, Some 0]
   \<and> compareEntries sampleHost [columnV]
         [\<lparr>key = ''zz'', order = Ascending\<rparr>, \<lparr>key = ''v'', order = Descending\<rparr>] rowA rowB = 0"
  using compareEntries_left_to_right
          [of "[\<lparr>key = ''zz'', order = Ascending\<rparr>, \<lparr>key = ''v'', order = Descending\<rparr>]"
              sampleHost "[columnV]" rowA rowC]
        compareEntries_left_to_right
          [of "[\<lparr>key = ''zz'', order = Ascending\<rparr>, \<lparr>key = ''v'', order = Descending\<rparr>]"
              sampleHost "[columnV]" rowA rowB]
  by (simp add: spec_entryResult_def columnV_def rowA_def rowB_def rowC_def getProperty_def
        getCellSortValue_def getCellValue_def js_gt_def Let_def)

section \<open>The host's sort\<close>

lemma mset_insertBy: "mset (insertBy cmp x ys) = add_mset x (mset ys)"
  by (induction ys) simp_all

lemma mset_stableSort: "mset (stableSort cmp xs) = mset xs"
  by (induction xs) (simp_all add: mset_insertBy)

lemma set_stableSort: "set (stableSort cmp xs) = set xs"
  using mset_stableSort [of cmp xs] by (metis set_mset_mset)

lemma set_insertBy: "set (insertBy cmp x ys) = insert x (set ys)"
  using mset_insertBy [of cmp x ys] by (metis set_mset_mset set_mset_add_mset_insert)

lemma filter_insertBy_member:
  "P x \<Longrightarrow> \<forall>y\<in>set ys. P y \<longrightarrow> cmp x y \<le> 0 \<Longrightarrow>
     filter P (insertBy cmp x ys) = x # filter P ys"
  by (induction ys) simp_all

lemma filter_insertBy_other:
  "\<not> P x \<Longrightarrow> filter P (insertBy cmp x ys) = filter P ys"
  by (induction ys) simp_all

lemma stableSort_stable:
  "\<forall>x\<in>set xs. \<forall>y\<in>set xs. P x \<and> P y \<longrightarrow> cmp x y \<le> 0 \<Longrightarrow>
     filter P (stableSort cmp xs) = filter P xs"
proof (induction xs)
  case Nil
  show ?case by simp
next
  case (Cons x xs)
  then have IH: "filter P (stableSort cmp xs) = filter P xs" by simp
  show ?case
  proof (cases "P x")
    case True
    with Cons.prems have "\<forall>y\<in>set (stableSort cmp xs). P y \<longrightarrow> cmp x y \<le> 0"
      by (simp add: set_stableSort)
    with True show ?thesis by (simp add: filter_insertBy_member IH)
  next
    case False
    then show ?thesis by (simp add: filter_insertBy_other IH)
  qed
qed

lemma stableSort_all_equal:
  assumes "\<forall>x\<in>set xs. \<forall>y\<in>set xs. cmp x y \<le> 0"
  shows "stableSort cmp xs = xs"
proof -
  from assms have "filter (\<lambda>_. True) (stableSort cmp xs) = filter (\<lambda>_. True) xs"
    by (intro stableSort_stable) simp
  then show ?thesis by simp
qed

lemma consistentOnD:
  assumes "consistentOn cmp xs" and "a \<in> set xs" and "b \<in> set xs" and "c \<in> set xs"
  shows "cmp a a = 0"
    and "cmp a b = 0 \<Longrightarrow> cmp b a = 0"
    and "cmp a b = 0 \<Longrightarrow> cmp b c = 0 \<Longrightarrow> cmp a c = 0"
    and "cmp a b < 0 \<Longrightarrow> cmp b c < 0 \<Longrightarrow> cmp a c < 0"
    and "0 < cmp a b \<Longrightarrow> 0 < cmp b c \<Longrightarrow> 0 < cmp a c"
proof -
  from assms have all: "cmp a a = 0
        \<and> (cmp a b = 0 \<longrightarrow> cmp b a = 0)
        \<and> (cmp a b = 0 \<and> cmp b c = 0 \<longrightarrow> cmp a c = 0)
        \<and> (cmp a b < 0 \<and> cmp b c < 0 \<longrightarrow> cmp a c < 0)
        \<and> (0 < cmp a b \<and> 0 < cmp b c \<longrightarrow> 0 < cmp a c)"
    unfolding consistentOn_def by (elim ballE) (assumption, simp_all)
  from all show "cmp a a = 0" by (rule conjunct1)
  from all show "cmp a b = 0 \<Longrightarrow> cmp b a = 0" by simp
  from all show "cmp a b = 0 \<Longrightarrow> cmp b c = 0 \<Longrightarrow> cmp a c = 0" by simp
  from all show "cmp a b < 0 \<Longrightarrow> cmp b c < 0 \<Longrightarrow> cmp a c < 0" by simp
  from all show "0 < cmp a b \<Longrightarrow> 0 < cmp b c \<Longrightarrow> 0 < cmp a c" by simp
qed

lemma consistentOn_subset:
  assumes "consistentOn cmp xs" and "set ys \<subseteq> set xs"
  shows "consistentOn cmp ys"
  unfolding consistentOn_def
proof (intro ballI)
  fix a b c assume "a \<in> set ys" "b \<in> set ys" "c \<in> set ys"
  with assms(2) have "a \<in> set xs" "b \<in> set xs" "c \<in> set xs" by auto
  with assms(1) show "cmp a a = 0
        \<and> (cmp a b = 0 \<longrightarrow> cmp b a = 0)
        \<and> (cmp a b = 0 \<and> cmp b c = 0 \<longrightarrow> cmp a c = 0)
        \<and> (cmp a b < 0 \<and> cmp b c < 0 \<longrightarrow> cmp a c < 0)
        \<and> (0 < cmp a b \<and> 0 < cmp b c \<longrightarrow> 0 < cmp a c)"
    unfolding consistentOn_def by (elim ballE) (assumption, simp_all)
qed

lemma all_ties_consistent:
  "\<forall>x\<in>set xs. \<forall>y\<in>set xs. cmp x y = 0 \<Longrightarrow> consistentOn cmp xs"
  by (simp add: consistentOn_def)

lemma consistent_flip:
  assumes "consistentOn cmp xs" and "a \<in> set xs" and "b \<in> set xs" and "0 < cmp a b"
  shows "cmp b a < 0"
proof (rule ccontr)
  assume "\<not> cmp b a < 0"
  then consider "cmp b a = 0" | "0 < cmp b a" by linarith
  then show False
  proof cases
    case 1
    then have "cmp a b = 0" by (rule consistentOnD(2) [OF assms(1) assms(3) assms(2) assms(2)])
    with assms(4) show False by simp
  next
    case 2
    with assms(4) have "0 < cmp a a"
      by (rule consistentOnD(5) [OF assms(1) assms(2) assms(3) assms(2)])
    moreover have "cmp a a = 0"
      by (rule consistentOnD(1) [OF assms(1) assms(2) assms(2) assms(2)])
    ultimately show False by simp
  qed
qed

lemma consistent_flip_less:
  assumes "consistentOn cmp xs" and "a \<in> set xs" and "b \<in> set xs" and "cmp a b < 0"
  shows "0 < cmp b a"
proof (rule ccontr)
  assume "\<not> 0 < cmp b a"
  then consider "cmp b a = 0" | "cmp b a < 0" by linarith
  then show False
  proof cases
    case 1
    then have "cmp a b = 0" by (rule consistentOnD(2) [OF assms(1) assms(3) assms(2) assms(2)])
    with assms(4) show False by simp
  next
    case 2
    with assms(4) have "cmp a a < 0"
      by (rule consistentOnD(4) [OF assms(1) assms(2) assms(3) assms(2)])
    moreover have "cmp a a = 0"
      by (rule consistentOnD(1) [OF assms(1) assms(2) assms(2) assms(2)])
    ultimately show False by simp
  qed
qed

lemma consistent_le_trans:
  assumes c: "consistentOn cmp xs" and a: "a \<in> set xs" and b: "b \<in> set xs" and z: "z \<in> set xs"
    and ab: "cmp a b \<le> 0" and bz: "cmp b z \<le> 0"
  shows "cmp a z \<le> 0"
proof (rule ccontr)
  assume "\<not> cmp a z \<le> 0"
  then have az: "0 < cmp a z" by simp
  then have za: "cmp z a < 0" by (rule consistent_flip [OF c a z])
  from ab consider "cmp a b < 0" | "cmp a b = 0" by linarith
  then show False
  proof cases
    case 1
    with za have zb: "cmp z b < 0" by (rule consistentOnD(4) [OF c z a b])
    then have "0 < cmp b z" by (rule consistent_flip_less [OF c z b])
    with bz show False by simp
  next
    case 2
    then have ba: "cmp b a = 0" by (rule consistentOnD(2) [OF c a b b])
    from bz consider "cmp b z < 0" | "cmp b z = 0" by linarith
    then show False
    proof cases
      case 1
      from 1 za have "cmp b a < 0" by (rule consistentOnD(4) [OF c b z a])
      with ba show False by simp
    next
      case 2
      with \<open>cmp a b = 0\<close> have "cmp a z = 0" by (rule consistentOnD(3) [OF c a b z])
      with az show False by simp
    qed
  qed
qed

lemma sorted_insertBy:
  assumes "consistentOn cmp zs" and "x \<in> set zs" and "set ys \<subseteq> set zs"
    and "sorted_wrt (\<lambda>a b. cmp a b \<le> 0) ys"
  shows "sorted_wrt (\<lambda>a b. cmp a b \<le> 0) (insertBy cmp x ys)"
  using assms(3,4)
proof (induction ys)
  case Nil
  show ?case by simp
next
  case (Cons y ys)
  from Cons.prems have y: "y \<in> set zs" and sub: "set ys \<subseteq> set zs"
    and y_le: "\<forall>z\<in>set ys. cmp y z \<le> 0" and srt: "sorted_wrt (\<lambda>a b. cmp a b \<le> 0) ys"
    by auto
  show ?case
  proof (cases "cmp x y \<le> 0")
    case True
    have "cmp x z \<le> 0" if "z \<in> set ys" for z
    proof -
      from that sub have "z \<in> set zs" by auto
      moreover from that y_le have "cmp y z \<le> 0" by simp
      ultimately show ?thesis
        using consistent_le_trans [OF assms(1) assms(2) y _ True] by simp
    qed
    with True Cons.prems show ?thesis by simp
  next
    case False
    then have "0 < cmp x y" by simp
    then have "cmp y x < 0" by (rule consistent_flip [OF assms(1) assms(2) y])
    with y_le have "\<forall>z\<in>set (insertBy cmp x ys). cmp y z \<le> 0"
      by (auto simp: set_insertBy)
    moreover have "sorted_wrt (\<lambda>a b. cmp a b \<le> 0) (insertBy cmp x ys)"
      using sub srt by (rule Cons.IH)
    ultimately show ?thesis using False by simp
  qed
qed

lemma sorted_stableSort:
  assumes "consistentOn cmp zs"
  shows "set xs \<subseteq> set zs \<Longrightarrow> sorted_wrt (\<lambda>a b. cmp a b \<le> 0) (stableSort cmp xs)"
proof (induction xs)
  case Nil
  show ?case by simp
next
  case (Cons x xs)
  then have "x \<in> set zs" and "set (stableSort cmp xs) \<subseteq> set zs"
    and "sorted_wrt (\<lambda>a b. cmp a b \<le> 0) (stableSort cmp xs)"
    by (simp_all add: set_stableSort)
  then show ?case
    using sorted_insertBy [OF assms] by simp
qed

lemma mset_hostOrder: "mset (hostOrder H cmp xs) = mset xs"
proof -
  have "mset (hostOrder H cmp xs) = image_mset (nth xs) (mset [0 ..< length xs])"
    by (simp add: hostOrder_def)
  also have "\<dots> = mset (map (nth xs) [0 ..< length xs])"
    by simp
  also have "\<dots> = mset xs"
    by (simp only: map_nth)
  finally show ?thesis .
qed

lemma mset_array_sort: "mset (array_sort H cmp xs) = mset xs"
  by (simp add: array_sort_def mset_stableSort mset_hostOrder)

lemma array_sort_consistent:
  "consistentOn cmp xs \<Longrightarrow> array_sort H cmp xs = stableSort cmp xs"
  by (simp add: array_sort_def)

lemma array_sort_all_equal:
  assumes "\<forall>x\<in>set xs. \<forall>y\<in>set xs. cmp x y = 0"
  shows "array_sort H cmp xs = xs"
proof -
  from assms have "consistentOn cmp xs" by (rule all_ties_consistent)
  moreover from assms have "stableSort cmp xs = xs"
    by (intro stableSort_all_equal) simp
  ultimately show ?thesis by (simp add: array_sort_consistent)
qed

lemma array_sort_stablySorted:
  assumes "consistentOn cmp xs"
  shows "stablySorted cmp S xs (array_sort H cmp xs)"
proof -
  have ties: "filter (\<lambda>r. r \<in> S) (stableSort cmp xs) = filter (\<lambda>r. r \<in> S) xs"
    if "\<forall>x\<in>S. \<forall>y\<in>S. cmp x y = 0"
    using that by (intro stableSort_stable) simp
  have "sorted_wrt (\<lambda>a b. cmp a b \<le> 0) (stableSort cmp xs)"
    using sorted_stableSort [OF assms, of xs] by simp
  with ties show ?thesis
    by (simp add: stablySorted_def array_sort_consistent [OF assms] mset_stableSort)
qed

section \<open>sort and sortRows\<close>

lemma sort_ts_result:
  "snd (sort_ts H h arr cols so dso) = arr"
  "rowArrays (fst (sort_ts H h arr cols so dso)) arr =
     array_sort H (compareEntries H cols (effectiveOrder h so dso)) (rowArrays h arr)"
  "a \<noteq> arr \<Longrightarrow> rowArrays (fst (sort_ts H h arr cols so dso)) a = rowArrays h a"
  "entries (fst (sort_ts H h arr cols so dso)) = entries h"
  "orders (fst (sort_ts H h arr cols so dso)) = orders h"
  "nxt (fst (sort_ts H h arr cols so dso)) = nxt h"
  by (simp_all add: sort_ts_def)

lemma sort_ts_no_reorder:
  assumes "\<forall>x\<in>set (rowArrays h arr). \<forall>y\<in>set (rowArrays h arr).
             compareEntries H cols (effectiveOrder h so dso) x y = 0"
  shows "sort_ts H h arr cols so dso = (h, arr)"
proof -
  have "array_sort H (compareEntries H cols (effectiveOrder h so dso)) (rowArrays h arr) = rowArrays h arr"
    using assms by (rule array_sort_all_equal)
  then show ?thesis by (simp add: sort_ts_def)
qed

text \<open>
  C10. An entry with an undefined order gives no verdict, reversed column or not: the
  comparison goes on with the entries after it. Over an order made of such entries
  only, every two rows compare equal and sorting leaves the store as it was.
\<close>

theorem undefined_order_entries_are_neutral:
  "(order e = Undefined \<longrightarrow>
      compareEntries H cols (e # rest) a b = compareEntries H cols rest a b)
   \<and> ((\<forall>e\<in>set ord. order e = Undefined) \<longrightarrow> compareEntries H cols ord a b = 0)
   \<and> ((\<forall>e\<in>set (effectiveOrder h so dso). order e = Undefined) \<longrightarrow>
         sort_ts H h arr cols so dso = (h, arr))"
proof (intro conjI impI)
  assume "order e = Undefined"
  then show "compareEntries H cols (e # rest) a b = compareEntries H cols rest a b"
    by (rule compareEntries_undefined_order)
next
  assume "\<forall>e\<in>set ord. order e = Undefined"
  then show "compareEntries H cols ord a b = 0"
    by (rule compareEntries_all_undefined)
next
  assume u: "\<forall>e\<in>set (effectiveOrder h so dso). order e = Undefined"
  show "sort_ts H h arr cols so dso = (h, arr)"
    by (rule sort_ts_no_reorder) (simp add: compareEntries_all_undefined [OF u])
qed


theorem undefined_order_entries_are_neutral_witness:
  "order \<lparr>key = ''v'', order = Undefined\<rparr> = Undefined
   \<and> compareEntries sampleHost [columnV\<lparr>reverseSortOrder := Some True\<rparr>]
         [\<lparr>key = ''v'', order = Undefined\<rparr>, \<lparr>key = ''v'', order = Ascending\<rparr>] rowA rowC
       = compareEntries sampleHost [columnV\<lparr>reverseSortOrder := Some True\<rparr>]
           [\<lparr>key = ''v'', order = Ascending\<rparr>] rowA rowC
   \<and> compareEntries sampleHost [columnV\<lparr>reverseSortOrder := Some True\<rparr>]
         [\<lparr>key = ''v'', order = Undefined\<rparr>] rowC rowA = 0
   \<and> map order (effectiveOrder
                   ((sampleHeap [rowC, rowA])\<lparr>entries := (\<lambda>_. \<lparr>key = ''v'', order = Undefined\<rparr>)\<rparr>)
                   (Some 0) None) = [Undefined]
   \<and> sort_ts sampleHost
         ((sampleHeap [rowC, rowA])\<lparr>entries := (\<lambda>_. \<lparr>key = ''v'', order = Undefined\<rparr>)\<rparr>)
         2 [columnV\<lparr>reverseSortOrder := Some True\<rparr>] (Some 0) None
       = ((sampleHeap [rowC, rowA])\<lparr>entries := (\<lambda>_. \<lparr>key = ''v'', order = Undefined\<rparr>)\<rparr>, 2)"
proof -
  have u: "\<forall>e\<in>set (effectiveOrder
                   ((sampleHeap [rowC, rowA])\<lparr>entries := (\<lambda>_. \<lparr>key = ''v'', order = Undefined\<rparr>)\<rparr>)
                   (Some 0) None). order e = Undefined"
    by (simp add: effectiveOrder_def readOrder_def sampleHeap_def)
  note a = undefined_order_entries_are_neutral
             [where e = "\<lparr>key = ''v'', order = Undefined\<rparr>" and H = sampleHost
                and cols = "[columnV\<lparr>reverseSortOrder := Some True\<rparr>]"
                and rest = "[\<lparr>key = ''v'', order = Ascending\<rparr>]" and a = rowA and b = rowC
                and ord = "[\<lparr>key = ''v'', order = Undefined\<rparr>]"
                and h = "(sampleHeap [rowC, rowA])\<lparr>entries := (\<lambda>_. \<lparr>key = ''v'', order = Undefined\<rparr>)\<rparr>"
                and so = "Some 0" and dso = None and arr = 2]
  note b = undefined_order_entries_are_neutral
             [where e = "\<lparr>key = ''v'', order = Undefined\<rparr>" and H = sampleHost
                and cols = "[columnV\<lparr>reverseSortOrder := Some True\<rparr>]"
                and rest = "[]" and a = rowC and b = rowA
                and ord = "[\<lparr>key = ''v'', order = Undefined\<rparr>]"
                and h = "(sampleHeap [rowC, rowA])\<lparr>entries := (\<lambda>_. \<lparr>key = ''v'', order = Undefined\<rparr>)\<rparr>"
                and so = "Some 0" and dso = None and arr = 2]
  have m: "map order (effectiveOrder
                   ((sampleHeap [rowC, rowA])\<lparr>entries := (\<lambda>_. \<lparr>key = ''v'', order = Undefined\<rparr>)\<rparr>)
                   (Some 0) None) = [Undefined]"
    by (simp add: effectiveOrder_def readOrder_def sampleHeap_def)
  from a b u m show ?thesis by (simp del: compareEntries.simps)
qed

section \<open>Stability and the array that is sorted\<close>

lemma effectiveOrder_cases:
  "so = Some a \<Longrightarrow> orders h a \<noteq> [] \<Longrightarrow> effectiveOrder h so dso = readOrder h a"
  "so = None \<or> (\<exists>a. so = Some a \<and> orders h a = []) \<Longrightarrow> dso = Some d \<Longrightarrow>
     effectiveOrder h so dso = readOrder h d"
  "so = None \<or> (\<exists>a. so = Some a \<and> orders h a = []) \<Longrightarrow> dso = None \<Longrightarrow>
     effectiveOrder h so dso = []"
  by (auto simp: effectiveOrder_def)

lemma byV_table:
  "compareEntries H [columnV] [\<lparr>key = ''v'', order = Ascending\<rparr>] rowA rowA = 0"
  "compareEntries H [columnV] [\<lparr>key = ''v'', order = Ascending\<rparr>] rowA rowB = 0"
  "compareEntries H [columnV] [\<lparr>key = ''v'', order = Ascending\<rparr>] rowA rowC = - 1"
  "compareEntries H [columnV] [\<lparr>key = ''v'', order = Ascending\<rparr>] rowB rowA = 0"
  "compareEntries H [columnV] [\<lparr>key = ''v'', order = Ascending\<rparr>] rowB rowB = 0"
  "compareEntries H [columnV] [\<lparr>key = ''v'', order = Ascending\<rparr>] rowB rowC = - 1"
  "compareEntries H [columnV] [\<lparr>key = ''v'', order = Ascending\<rparr>] rowC rowA = 1"
  "compareEntries H [columnV] [\<lparr>key = ''v'', order = Ascending\<rparr>] rowC rowB = 1"
  "compareEntries H [columnV] [\<lparr>key = ''v'', order = Ascending\<rparr>] rowC rowC = 0"
  by (simp_all add: columnV_def rowA_def rowB_def rowC_def getProperty_def getCellSortValue_def
        getCellValue_def js_gt_def Let_def)

lemma byV_consistent:
  assumes "set xs \<subseteq> {rowA, rowB, rowC}"
  shows "consistentOn (compareEntries H [columnV] [\<lparr>key = ''v'', order = Ascending\<rparr>]) xs"
proof -
  have "consistentOn (compareEntries H [columnV] [\<lparr>key = ''v'', order = Ascending\<rparr>])
          [rowA, rowB, rowC]"
    by (simp add: consistentOn_def byV_table del: compareEntries.simps)
  then show ?thesis
    by (rule consistentOn_subset) (use assms in simp)
qed

lemma sampleHeap_order:
  "effectiveOrder (sampleHeap xs) (Some 0) dso = [\<lparr>key = ''v'', order = Ascending\<rparr>]"
  "effectiveOrder (sampleHeap xs) (Some 5) (Some 0) = [\<lparr>key = ''v'', order = Ascending\<rparr>]"
  "effectiveOrder (sampleHeap xs) (Some 5) None = []"
  "readOrder (sampleHeap xs) 0 = [\<lparr>key = ''v'', order = Ascending\<rparr>]"
  "orders (sampleHeap xs) 0 = [1]" "orders (sampleHeap xs) 5 = []"
  "rowArrays (sampleHeap xs) 2 = xs"
  by (simp_all add: effectiveOrder_def readOrder_def sampleHeap_def)

lemma sample_sorts:
  "rowArrays (fst (sort_ts H (sampleHeap [rowA, rowB, rowC]) 2 [columnV] (Some 0) None)) 2
     = [rowA, rowB, rowC]"
  "rowArrays (fst (sort_ts H (sampleHeap [rowC, rowB, rowA]) 2 [columnV] (Some 0) None)) 2
     = [rowB, rowA, rowC]"
  "rowArrays (fst (sort_ts H (sampleHeap [rowC, rowA]) 2 [columnV] (Some 0) None)) 2
     = [rowA, rowC]"
  "rowArrays (fst (sort_ts H (sampleHeap [rowC, rowB, rowA]) 2 [columnV] (Some 5) (Some 0))) 2
     = [rowB, rowA, rowC]"
  by (simp_all add: sort_ts_result sampleHeap_order array_sort_consistent [OF byV_consistent]
        byV_table del: compareEntries.simps)

lemma sort_ts_stablySorted:
  assumes "consistentOn (compareEntries H cols (effectiveOrder h so dso)) (rowArrays h arr)"
  shows "stablySorted (compareEntries H cols (effectiveOrder h so dso)) S (rowArrays h arr)
           (rowArrays (fst (sort_ts H h arr cols so dso)) arr)"
  unfolding sort_ts_result(2) using assms by (rule array_sort_stablySorted)

text \<open>
  C6, as amended. The order in effect is the sort order when it is not empty, else the
  default sort order, else empty. With an empty order in effect the rows stay as they
  are. When the comparison by the order in effect is consistent on the rows, the
  result is those rows sorted by it, and the rows of any set whose members all tie with
  one another keep the sequence they had: [a, b, c] sorted ascending by v stays
  [a, b, c]. For a comparison that is not consistent the order is the host's.
\<close>

theorem sort_stable_with_fallback:
  "(\<forall>a. so = Some a \<and> orders h a \<noteq> []
        \<and> consistentOn (compareEntries H cols (readOrder h a)) (rowArrays h arr) \<longrightarrow>
        stablySorted (compareEntries H cols (readOrder h a)) S (rowArrays h arr)
          (rowArrays (fst (sort_ts H h arr cols so dso)) arr))
   \<and> (\<forall>d. (so = None \<or> (\<exists>a. so = Some a \<and> orders h a = [])) \<and> dso = Some d
        \<and> consistentOn (compareEntries H cols (readOrder h d)) (rowArrays h arr) \<longrightarrow>
        stablySorted (compareEntries H cols (readOrder h d)) S (rowArrays h arr)
          (rowArrays (fst (sort_ts H h arr cols so dso)) arr))
   \<and> ((so = None \<or> (\<exists>a. so = Some a \<and> orders h a = []))
        \<and> (dso = None \<or> (\<exists>d. dso = Some d \<and> orders h d = [])) \<longrightarrow>
        rowArrays (fst (sort_ts H h arr cols so dso)) arr = rowArrays h arr)
   \<and> rowArrays (fst (sort_ts H (sampleHeap [rowA, rowB, rowC]) 2 [columnV] (Some 0) None)) 2
        = [rowA, rowB, rowC]"
proof (intro conjI allI impI)
  fix a
  assume p: "so = Some a \<and> orders h a \<noteq> []
        \<and> consistentOn (compareEntries H cols (readOrder h a)) (rowArrays h arr)"
  then have "effectiveOrder h so dso = readOrder h a"
    by (simp add: effectiveOrder_cases(1))
  with p sort_ts_stablySorted [of H cols h so dso arr S]
  show "stablySorted (compareEntries H cols (readOrder h a)) S (rowArrays h arr)
          (rowArrays (fst (sort_ts H h arr cols so dso)) arr)"
    by simp
next
  fix d
  assume p: "(so = None \<or> (\<exists>a. so = Some a \<and> orders h a = [])) \<and> dso = Some d
        \<and> consistentOn (compareEntries H cols (readOrder h d)) (rowArrays h arr)"
  then have "effectiveOrder h so dso = readOrder h d"
    using effectiveOrder_cases(2) [of so h dso d] by blast
  with p sort_ts_stablySorted [of H cols h so dso arr S]
  show "stablySorted (compareEntries H cols (readOrder h d)) S (rowArrays h arr)
          (rowArrays (fst (sort_ts H h arr cols so dso)) arr)"
    by simp
next
  assume p: "(so = None \<or> (\<exists>a. so = Some a \<and> orders h a = []))
        \<and> (dso = None \<or> (\<exists>d. dso = Some d \<and> orders h d = []))"
  have "effectiveOrder h so dso = []"
  proof (cases dso)
    case None
    with p show ?thesis using effectiveOrder_cases(3) [of so h dso] by blast
  next
    case (Some d)
    with p have "orders h d = []" by simp
    moreover from p Some have "effectiveOrder h so dso = readOrder h d"
      using effectiveOrder_cases(2) [of so h dso d] by blast
    ultimately show ?thesis by (simp add: readOrder_def)
  qed
  then have "sort_ts H h arr cols so dso = (h, arr)"
    by (intro sort_ts_no_reorder) simp
  then show "rowArrays (fst (sort_ts H h arr cols so dso)) arr = rowArrays h arr"
    by simp
next
  show "rowArrays (fst (sort_ts H (sampleHeap [rowA, rowB, rowC]) 2 [columnV] (Some 0) None)) 2
        = [rowA, rowB, rowC]"
    by (rule sample_sorts(1))
qed

theorem sort_stable_with_fallback_witness:
  "rowArrays (fst (sort_ts sampleHost (sampleHeap [rowC, rowB, rowA]) 2 [columnV] (Some 0) None)) 2
     = [rowB, rowA, rowC]
   \<and> stablySorted (compareEntries sampleHost [columnV] [\<lparr>key = ''v'', order = Ascending\<rparr>])
        {rowA, rowB} [rowC, rowB, rowA] [rowB, rowA, rowC]
   \<and> filter (\<lambda>r. r \<in> {rowA, rowB})
        (rowArrays (fst (sort_ts sampleHost (sampleHeap [rowC, rowB, rowA]) 2 [columnV] (Some 0) None)) 2)
     = [rowB, rowA]
   \<and> rowArrays (fst (sort_ts sampleHost (sampleHeap [rowC, rowB, rowA]) 2 [columnV] (Some 5) (Some 0))) 2
     = [rowB, rowA, rowC]
   \<and> stablySorted (compareEntries sampleHost [columnV] [\<lparr>key = ''v'', order = Ascending\<rparr>])
        {rowA, rowB} [rowC, rowB, rowA]
        (rowArrays (fst (sort_ts sampleHost (sampleHeap [rowC, rowB, rowA]) 2 [columnV] (Some 5) (Some 0))) 2)
   \<and> rowArrays (fst (sort_ts sampleHost (sampleHeap [rowC, rowB, rowA]) 2 [columnV] (Some 5) None)) 2
     = [rowC, rowB, rowA]"
proof -
  let ?h = "sampleHeap [rowC, rowB, rowA]"
  let ?cmp = "compareEntries sampleHost [columnV] [\<lparr>key = ''v'', order = Ascending\<rparr>]"
  have cons: "consistentOn ?cmp [rowC, rowB, rowA]"
    by (rule byV_consistent) simp
  note t0 = sort_stable_with_fallback
              [where so = "Some 0" and dso = None and h = ?h and H = sampleHost and arr = 2
                 and cols = "[columnV]" and S = "{rowA, rowB}"]
  note t1 = sort_stable_with_fallback
              [where so = "Some 5" and dso = "Some 0" and h = ?h and H = sampleHost and arr = 2
                 and cols = "[columnV]" and S = "{rowA, rowB}"]
  note t2 = sort_stable_with_fallback
              [where so = "Some 5" and dso = None and h = ?h and H = sampleHost and arr = 2
                 and cols = "[columnV]" and S = "{rowA, rowB}"]
  have a: "stablySorted ?cmp {rowA, rowB} [rowC, rowB, rowA]
             (rowArrays (fst (sort_ts sampleHost ?h 2 [columnV] (Some 0) None)) 2)"
    using t0 [THEN conjunct1, rule_format, of 0] cons by (simp add: sampleHeap_order)
  have b: "stablySorted ?cmp {rowA, rowB} [rowC, rowB, rowA]
             (rowArrays (fst (sort_ts sampleHost ?h 2 [columnV] (Some 5) (Some 0))) 2)"
    using t1 [THEN conjunct2, THEN conjunct1, rule_format, of 0] cons
    by (simp add: sampleHeap_order)
  have c: "rowArrays (fst (sort_ts sampleHost ?h 2 [columnV] (Some 5) None)) 2 = [rowC, rowB, rowA]"
    using t2 [THEN conjunct2, THEN conjunct2, THEN conjunct1] by (simp add: sampleHeap_order)
  have ties: "\<forall>x\<in>{rowA, rowB}. \<forall>y\<in>{rowA, rowB}. ?cmp x y = 0"
    by (simp add: byV_table del: compareEntries.simps)
  from a ties have f: "filter (\<lambda>r. r \<in> {rowA, rowB})
        (rowArrays (fst (sort_ts sampleHost ?h 2 [columnV] (Some 0) None)) 2)
      = filter (\<lambda>r. r \<in> {rowA, rowB}) [rowC, rowB, rowA]"
    unfolding stablySorted_def by blast
  have ne: "rowA \<noteq> rowB" "rowC \<noteq> rowA" "rowC \<noteq> rowB"
    by (simp_all add: rowA_def rowB_def rowC_def)
  from f ne have f': "filter (\<lambda>r. r \<in> {rowA, rowB})
        (rowArrays (fst (sort_ts sampleHost ?h 2 [columnV] (Some 0) None)) 2) = [rowB, rowA]"
    by simp
  from a have a': "stablySorted ?cmp {rowA, rowB} [rowC, rowB, rowA] [rowB, rowA, rowC]"
    by (simp only: sample_sorts(2))
  from sample_sorts(2) [of sampleHost] a' f' sample_sorts(4) [of sampleHost] b c
  show ?thesis by (intro conjI)
qed

lemma mixed_table:
  "compareEntries sampleHost [columnV] [\<lparr>key = ''v'', order = Ascending\<rparr>] mixedC mixedD = 0"
  "compareEntries sampleHost [columnV] [\<lparr>key = ''v'', order = Ascending\<rparr>] mixedD mixedC = 0"
  "compareEntries sampleHost [columnV] [\<lparr>key = ''v'', order = Ascending\<rparr>] mixedC mixedA = 0"
  "compareEntries sampleHost [columnV] [\<lparr>key = ''v'', order = Ascending\<rparr>] mixedD mixedA = - 1"
  "compareEntries sampleHost [columnV] [\<lparr>key = ''v'', order = Ascending\<rparr>] mixedD mixedB = - 1"
  "compareEntries sampleHost [columnV] [\<lparr>key = ''v'', order = Ascending\<rparr>] mixedB mixedA = - 1"
  "compareEntries sampleHost [columnV] [\<lparr>key = ''v'', order = Ascending\<rparr>] mixedC mixedB = 0"
  by code_simp+

lemma mixed_not_consistent:
  "\<not> consistentOn (compareEntries sampleHost [columnV] [\<lparr>key = ''v'', order = Ascending\<rparr>])
       [mixedA, mixedB, mixedC, mixedD]"
proof
  assume c: "consistentOn (compareEntries sampleHost [columnV] [\<lparr>key = ''v'', order = Ascending\<rparr>])
       [mixedA, mixedB, mixedC, mixedD]"
  have "compareEntries sampleHost [columnV] [\<lparr>key = ''v'', order = Ascending\<rparr>] mixedD mixedA = 0"
    by (rule consistentOnD(3) [OF c _ _ _ mixed_table(2) mixed_table(3)]) simp_all
  with mixed_table(4) show False by (simp del: compareEntries.simps)
qed

lemma mixed_host_order:
  "hostOrder sampleHost (compareEntries sampleHost [columnV] [\<lparr>key = ''v'', order = Ascending\<rparr>])
     [mixedA, mixedB, mixedC, mixedD] = [mixedD, mixedB, mixedA, mixedC]"
  by code_simp

text \<open>
  Rows with the values 3, 2, "abc" and 1 in the sorted column: the rows of "abc" and of
  1 tie in both directions, and the sort puts the second in front of the first.
\<close>

theorem sort_stable_counterexample:
  "compareEntries sampleHost [columnV]
     (effectiveOrder (sampleHeap [mixedA, mixedB, mixedC, mixedD]) (Some 0) None) mixedC mixedD = 0
   \<and> compareEntries sampleHost [columnV]
     (effectiveOrder (sampleHeap [mixedA, mixedB, mixedC, mixedD]) (Some 0) None) mixedD mixedC = 0
   \<and> rowArrays (sampleHeap [mixedA, mixedB, mixedC, mixedD]) 2 = [mixedA, mixedB, mixedC, mixedD]
   \<and> rowArrays (fst (sort_ts sampleHost (sampleHeap [mixedA, mixedB, mixedC, mixedD]) 2 [columnV]
                       (Some 0) None)) 2
       = [mixedD, mixedB, mixedA, mixedC]"
  by (simp add: sort_ts_result sampleHeap_order array_sort_def mixed_not_consistent
        mixed_host_order mixed_table del: compareEntries.simps)

lemma sortRows_result:
  "rows (snd (sortRows H (h, g))) = nxt h"
  "rowArrays (fst (sortRows H (h, g))) (nxt h)
     = array_sort H (compareEntries H (columns g)
                     (effectiveOrder h (Some (sortOrder g)) (defaultSortOrder g)))
         (rowArrays h (rows g))"
  "a \<noteq> nxt h \<Longrightarrow> rowArrays (fst (sortRows H (h, g))) a = rowArrays h a"
  "entries (fst (sortRows H (h, g))) = entries h"
  "orders (fst (sortRows H (h, g))) = orders h"
  "nxt (fst (sortRows H (h, g))) = Suc (nxt h)"
  "snd (sortRows H (h, g)) = g\<lparr>rows := nxt h\<rparr>"
  by (simp_all add: sortRows_def newRowArray_def sort_ts_def effectiveOrder_def readOrder_def
        split: option.splits)

text \<open>
  C5, as amended. sort reorders the array it is given where it is and returns the
  reference it was given; no other array changes. The copy is made by the grid's
  sortRows: after it the grid's rows are a new array with the same rows, and the array
  that the grid held before has its elements where they were.
\<close>

theorem sort_in_place_sortRows_copies:
  "snd (sort_ts H h arr cols so dso) = arr
   \<and> mset (rowArrays (fst (sort_ts H h arr cols so dso)) arr) = mset (rowArrays h arr)
   \<and> (\<forall>a. a \<noteq> arr \<longrightarrow> rowArrays (fst (sort_ts H h arr cols so dso)) a = rowArrays h a)
   \<and> (rows g < nxt h \<longrightarrow>
         rows (snd (sortRows H (h, g))) \<noteq> rows g
         \<and> rowArrays (fst (sortRows H (h, g))) (rows g) = rowArrays h (rows g)
         \<and> mset (rowArrays (fst (sortRows H (h, g))) (rows (snd (sortRows H (h, g)))))
             = mset (rowArrays h (rows g)))"
  by (simp add: sort_ts_result sortRows_result mset_array_sort)

theorem sort_in_place_sortRows_copies_witness:
  "rowArrays (fst (sort_ts sampleHost (sampleHeap [rowC, rowA]) 2 [columnV] (Some 0) None)) 0
     = rowArrays (sampleHeap [rowC, rowA]) 0
   \<and> rows (sampleGrid None) < nxt (sampleHeap [rowC, rowA])
   \<and> rows (snd (sortRows sampleHost (sampleHeap [rowC, rowA], sampleGrid None))) = 3
   \<and> rowArrays (fst (sortRows sampleHost (sampleHeap [rowC, rowA], sampleGrid None))) 2
       = [rowC, rowA]
   \<and> rowArrays (fst (sortRows sampleHost (sampleHeap [rowC, rowA], sampleGrid None))) 3
       = [rowA, rowC]"
proof -
  have p: "rows (sampleGrid None) < nxt (sampleHeap [rowC, rowA])" "rows (sampleGrid None) = 2"
    "nxt (sampleHeap [rowC, rowA]) = 3" "rowArrays (sampleHeap [rowC, rowA]) 2 = [rowC, rowA]"
    by (simp_all add: sampleGrid_def sampleHeap_def)
  have g: "columns (sampleGrid None) = [columnV]" "sortOrder (sampleGrid None) = 0"
    "defaultSortOrder (sampleGrid None) = None"
    by (simp_all add: sampleGrid_def)
  have "rowArrays (fst (sortRows sampleHost (sampleHeap [rowC, rowA], sampleGrid None)))
          (nxt (sampleHeap [rowC, rowA]))
        = array_sort sampleHost
            (compareEntries sampleHost [columnV] [\<lparr>key = ''v'', order = Ascending\<rparr>])
            [rowC, rowA]"
    using sortRows_result(2) [of sampleHost "sampleHeap [rowC, rowA]" "sampleGrid None"]
    by (simp only: g p sampleHeap_order)
  also have "\<dots> = [rowA, rowC]"
    by (simp add: array_sort_consistent [OF byV_consistent] byV_table del: compareEntries.simps)
  finally have s: "rowArrays (fst (sortRows sampleHost (sampleHeap [rowC, rowA], sampleGrid None))) 3
       = [rowA, rowC]"
    by (simp only: p)
  note t = sort_in_place_sortRows_copies
             [where H = sampleHost and h = "sampleHeap [rowC, rowA]" and arr = 2
                and cols = "[columnV]" and so = "Some 0" and dso = None and g = "sampleGrid None"]
  from t have "rowArrays (fst (sort_ts sampleHost (sampleHeap [rowC, rowA]) 2 [columnV] (Some 0) None)) 0
     = rowArrays (sampleHeap [rowC, rowA]) 0" by simp
  moreover from t p have "rowArrays (fst (sortRows sampleHost (sampleHeap [rowC, rowA], sampleGrid None))) 2
       = [rowC, rowA]" by simp
  moreover have "rows (snd (sortRows sampleHost (sampleHeap [rowC, rowA], sampleGrid None))) = 3"
    by (simp add: sortRows_result p)
  ultimately show ?thesis using p s by (intro conjI)
qed

theorem sort_returns_new_unmutated_counterexample:
  "snd (sort_ts sampleHost (sampleHeap [rowC, rowA]) 2 [columnV] (Some 0) None) = 2
   \<and> rowArrays (sampleHeap [rowC, rowA]) 2 = [rowC, rowA]
   \<and> rowArrays (fst (sort_ts sampleHost (sampleHeap [rowC, rowA]) 2 [columnV] (Some 0) None)) 2
       = [rowA, rowC]
   \<and> [rowA, rowC] \<noteq> [rowC, rowA]"
  by (simp add: sample_sorts(3) sort_ts_result(1)) (simp add: sampleHeap_def rowA_def rowC_def)

section \<open>The copy of the sort order\<close>

lemma upt_shift: "[n ..< n + Suc k] = n # [Suc n ..< Suc n + k]"
  by (subst upt_rec) simp

lemma newEntry_fields:
  "snd (newEntry h v) = nxt h"
  "nxt (fst (newEntry h v)) = Suc (nxt h)"
  "entries (fst (newEntry h v)) = (entries h)(nxt h := v)"
  "orders (fst (newEntry h v)) = orders h"
  "rowArrays (fst (newEntry h v)) = rowArrays h"
  by (simp_all add: newEntry_def)

lemma newOrder_fields:
  "snd (newOrder h rs) = nxt h"
  "nxt (fst (newOrder h rs)) = Suc (nxt h)"
  "entries (fst (newOrder h rs)) = entries h"
  "orders (fst (newOrder h rs)) = (orders h)(nxt h := rs)"
  "rowArrays (fst (newOrder h rs)) = rowArrays h"
  by (simp_all add: newOrder_def)

lemma parseEntries_Cons:
  "parseEntries h (v # vs) =
     (fst (parseEntries (fst (newEntry h v)) vs), nxt h # snd (parseEntries (fst (newEntry h v)) vs))"
  by (simp add: newEntry_def split: prod.splits)

lemma parseEntries_refs:
  "snd (parseEntries h vs) = [nxt h ..< nxt h + length vs]"
proof (induction vs arbitrary: h)
  case Nil
  show ?case by simp
next
  case (Cons v vs)
  have "snd (parseEntries h (v # vs)) = nxt h # [Suc (nxt h) ..< Suc (nxt h) + length vs]"
    by (simp only: parseEntries_Cons snd_conv Cons.IH newEntry_fields)
  also have "\<dots> = [nxt h ..< nxt h + Suc (length vs)]"
    by (rule upt_shift [symmetric])
  finally show ?case by simp
qed

lemma parseEntries_nxt:
  "nxt (fst (parseEntries h vs)) = nxt h + length vs"
proof (induction vs arbitrary: h)
  case Nil
  show ?case by simp
next
  case (Cons v vs)
  show ?case by (simp only: parseEntries_Cons fst_conv Cons.IH newEntry_fields) simp
qed

lemma parseEntries_orders:
  "orders (fst (parseEntries h vs)) = orders h"
proof (induction vs arbitrary: h)
  case Nil
  show ?case by simp
next
  case (Cons v vs)
  show ?case by (simp only: parseEntries_Cons fst_conv Cons.IH newEntry_fields)
qed

lemma parseEntries_rowArrays:
  "rowArrays (fst (parseEntries h vs)) = rowArrays h"
proof (induction vs arbitrary: h)
  case Nil
  show ?case by simp
next
  case (Cons v vs)
  show ?case by (simp only: parseEntries_Cons fst_conv Cons.IH newEntry_fields)
qed

lemma parseEntries_outside:
  "a < nxt h \<or> nxt h + length vs \<le> a \<Longrightarrow> entries (fst (parseEntries h vs)) a = entries h a"
proof (induction vs arbitrary: h)
  case Nil
  show ?case by simp
next
  case (Cons v vs)
  let ?h1 = "fst (newEntry h v)"
  from Cons.prems have range: "a < nxt ?h1 \<or> nxt ?h1 + length vs \<le> a" and ne: "a \<noteq> nxt h"
    by (auto simp: newEntry_fields)
  from range have "entries (fst (parseEntries ?h1 vs)) a = entries ?h1 a"
    by (rule Cons.IH)
  with ne show ?case by (simp only: parseEntries_Cons fst_conv newEntry_fields) simp
qed

lemma parseEntries_values:
  "map (entries (fst (parseEntries h vs))) [nxt h ..< nxt h + length vs] = vs"
proof (induction vs arbitrary: h)
  case Nil
  show ?case by simp
next
  case (Cons v vs)
  let ?h1 = "fst (newEntry h v)"
  let ?h2 = "fst (parseEntries ?h1 vs)"
  have "entries ?h2 (nxt h) = entries ?h1 (nxt h)"
    by (rule parseEntries_outside) (simp add: newEntry_fields)
  then have first: "entries ?h2 (nxt h) = v" by (simp add: newEntry_fields)
  have rest: "map (entries ?h2) [Suc (nxt h) ..< Suc (nxt h) + length vs] = vs"
    using Cons.IH [of ?h1] by (simp only: newEntry_fields)
  have "map (entries ?h2) [nxt h ..< nxt h + length (v # vs)]
          = entries ?h2 (nxt h) # map (entries ?h2) [Suc (nxt h) ..< Suc (nxt h) + length vs]"
    by (simp only: length_Cons upt_shift list.map)
  with first rest show ?case
    by (simp only: parseEntries_Cons fst_conv)
qed


lemma JSON_copy:
  assumes "JSON_parse h (JSON_stringify h a) = (h1, c)"
  shows "c = nxt h + length (orders h a)"
    and "nxt h1 = Suc c"
    and "orders h1 = (orders h)(c := [nxt h ..< c])"
    and "rowArrays h1 = rowArrays h"
    and "map (entries h1) [nxt h ..< c] = readOrder h a"
    and "\<And>x. x < nxt h \<or> c \<le> x \<Longrightarrow> entries h1 x = entries h x"
proof -
  let ?vs = "readOrder h a"
  let ?p = "parseEntries h ?vs"
  have len: "length ?vs = length (orders h a)" by (simp add: readOrder_def)
  have "JSON_parse h (JSON_stringify h a) = newOrder (fst ?p) (snd ?p)"
    by (simp add: JSON_parse_def JSON_stringify_def split: prod.splits)
  with assms have h1: "h1 = fst (newOrder (fst ?p) (snd ?p))"
    and c: "c = snd (newOrder (fst ?p) (snd ?p))"
    by simp_all
  from c show c': "c = nxt h + length (orders h a)"
    by (simp only: newOrder_fields parseEntries_nxt len)
  have c'': "nxt (fst ?p) = c"
    by (simp only: c' parseEntries_nxt len)
  show "nxt h1 = Suc c"
    by (simp only: h1 newOrder_fields c'')
  show "orders h1 = (orders h)(c := [nxt h ..< c])"
    by (simp only: h1 newOrder_fields c'' parseEntries_orders parseEntries_refs)
       (simp only: c' len)
  show "rowArrays h1 = rowArrays h"
    by (simp only: h1 newOrder_fields parseEntries_rowArrays)
  have e: "entries h1 = entries (fst ?p)"
    by (simp only: h1 newOrder_fields)
  have "map (entries (fst ?p)) [nxt h ..< nxt h + length ?vs] = ?vs"
    by (rule parseEntries_values)
  then show "map (entries h1) [nxt h ..< c] = readOrder h a"
    by (simp only: e c' len)
  fix x assume "x < nxt h \<or> c \<le> x"
  then have "x < nxt h \<or> nxt h + length ?vs \<le> x" by (simp only: c' len)
  then show "entries h1 x = entries h x"
    unfolding e by (rule parseEntries_outside)
qed

lemma find_map_refs:
  "find P (map f rs) = map_option f (find (\<lambda>r. P (f r)) rs)"
  by (induction rs) simp_all

lemma find_Some_props:
  "find P xs = Some x \<Longrightarrow> x \<in> set xs \<and> P x"
  by (induction xs) (auto split: if_splits)

lemma map_filter_refs:
  "map f (filter (\<lambda>r. P (f r)) rs) = filter P (map f rs)"
  by (induction rs) simp_all


section \<open>A click on a column header\<close>

lemma clickSortOrder_effect:
  fixes e k h g
  defines "vs \<equiv> readOrder h (sortOrder g)"
  defines "st \<equiv> cycleColumnSortOrder g (columnState k vs)"
  defines "s' \<equiv> clickSortOrder e k (h, g)"
  shows "currentOrder s' =
           (if \<not> ctrlKey e \<and> \<not> shiftKey e then [] else filter (\<lambda>x. key x \<noteq> k) vs)
           @ (if st = Undefined then [] else [\<lparr>key = k, order = st\<rparr>])"
    and "\<And>a. a < nxt h \<Longrightarrow> entries (fst s') a = entries h a"
    and "\<And>a. a < nxt h \<Longrightarrow> orders (fst s') a = orders h a"
    and "rowArrays (fst s') = rowArrays h"
    and "snd s' = g\<lparr>sortOrder := sortOrder (snd s')\<rparr>"
    and "nxt h \<le> sortOrder (snd s')"
    and "sortOrder (snd s') < nxt (fst s')"
proof -
  obtain h1 c where copy: "JSON_parse h (JSON_stringify h (sortOrder g)) = (h1, c)"
    by (cases "JSON_parse h (JSON_stringify h (sortOrder g))")
  note J = JSON_copy [OF copy]
  let ?rs = "[nxt h ..< c]"
  have rs_vals: "map (entries h1) ?rs = vs"
    unfolding vs_def by (rule J(5))
  have o1: "orders h1 c = ?rs"
    by (simp add: J(3))
  define found where "found = find (\<lambda>r. key (entries h1 r) = k) ?rs"
  have found_val: "map_option (entries h1) found = find (\<lambda>x. key x = k) vs"
    using find_map_refs [of "\<lambda>x. key x = k" "entries h1" ?rs]
    by (simp only: rs_vals found_def)
  define h2 where "h2 = (case found of
      None \<Rightarrow> fst (newEntry h1 \<lparr>key = k, order = Undefined\<rparr>) | Some r \<Rightarrow> h1)"
  define entry where "entry = (case found of None \<Rightarrow> nxt h1 | Some r \<Rightarrow> r)"
  have pick: "(case find (\<lambda>r. key (entries h1 r) = k) (orders h1 c) of
                 None \<Rightarrow> newEntry h1 \<lparr>key = k, order = Undefined\<rparr>
               | Some r \<Rightarrow> (h1, r)) = (h2, entry)"
    unfolding o1 found_def [symmetric]
    by (cases found) (simp_all add: h2_def entry_def newEntry_def)
  have h2_frame: "orders h2 = orders h1" "rowArrays h2 = rowArrays h1" "nxt h1 \<le> nxt h2"
    by (cases found; simp add: h2_def newEntry_fields)+
  have h2_old: "entries h2 a = entries h1 a" if "a < nxt h1" for a
    using that by (cases found) (simp_all add: h2_def newEntry_fields)
  have entry_props: "key (entries h2 entry) = k \<and> order (entries h2 entry) = columnState k vs
      \<and> nxt h \<le> entry \<and> entry < nxt h2"
  proof (cases found)
    case None
    with found_val have "find (\<lambda>x. key x = k) vs = None" by simp
    then have "columnState k vs = Undefined" by (simp add: columnState_def)
    with None show ?thesis
      by (simp add: h2_def entry_def newEntry_fields J(1) J(2))
  next
    case (Some r)
    then have r: "r \<in> set ?rs" "key (entries h1 r) = k"
      using find_Some_props [of "\<lambda>r. key (entries h1 r) = k" ?rs r] by (simp_all add: found_def)
    from Some found_val have "find (\<lambda>x. key x = k) vs = Some (entries h1 r)" by simp
    then have "columnState k vs = order (entries h1 r)" by (simp add: columnState_def)
    with Some r show ?thesis
      by (simp add: h2_def entry_def J(2))
  qed
  define flt where "flt = (if \<not> ctrlKey e \<and> \<not> shiftKey e then []
                           else filter (\<lambda>r. key (entries h2 r) \<noteq> k) ?rs)"
  define n where "n = nxt h2"
  define h3 where "h3 = fst (newOrder h2 flt)"
  have arr: "(if \<not> ctrlKey e \<and> \<not> shiftKey e
              then newOrder h2 []
              else newOrder h2 (filter (\<lambda>r. key (entries h2 r) \<noteq> k) (orders h2 c))) = (h3, n)"
    by (simp add: h3_def n_def flt_def newOrder_def h2_frame o1)
  have h3_fields: "entries h3 = entries h2" "orders h3 = (orders h2)(n := flt)"
    "rowArrays h3 = rowArrays h2" "nxt h3 = Suc n"
    by (simp_all add: h3_def n_def newOrder_fields)
  define h4 where "h4 = h3\<lparr>entries := (entries h3)
                   (entry := (entries h3 entry)
                      \<lparr>order := cycleColumnSortOrder g (order (entries h3 entry))\<rparr>)\<rparr>"
  define h5 where "h5 = (if order (entries h4 entry) \<noteq> Undefined
                then h4\<lparr>orders := (orders h4)(n := orders h4 n @ [entry])\<rparr>
                else h4)"
  have res: "s' = (h5, g\<lparr>sortOrder := n\<rparr>)"
    unfolding s'_def clickSortOrder_def
    by (simp only: prod.case copy pick arr Let_def h4_def [symmetric] h5_def [symmetric])
  have new_entry: "entries h4 entry = \<lparr>key = k, order = st\<rparr>"
    using entry_props by (cases "entries h2 entry") (simp add: h4_def h3_fields st_def)
  have h4_other: "entries h4 a = entries h2 a" if "a \<noteq> entry" for a
    using that by (simp add: h4_def h3_fields)
  have h4_fields: "orders h4 = orders h3" "rowArrays h4 = rowArrays h3" "nxt h4 = nxt h3"
    by (simp_all add: h4_def)
  have h5_fields: "entries h5 = entries h4" "rowArrays h5 = rowArrays h4" "nxt h5 = nxt h4"
    "orders h5 = (orders h4)(n := flt @ (if st = Undefined then [] else [entry]))"
    by (auto simp: h5_def new_entry h4_fields h3_fields)
  have flt_sub: "set flt \<subseteq> set ?rs" "\<forall>r\<in>set flt. key (entries h2 r) \<noteq> k"
    by (auto simp: flt_def)
  have rs_lt: "\<forall>r\<in>set ?rs. r < nxt h1" by (simp add: J(2))
  have flt_vals: "map (entries h4) flt = map (entries h1) flt"
  proof (rule map_cong [OF refl])
    fix r assume r: "r \<in> set flt"
    with flt_sub entry_props have "r \<noteq> entry" by auto
    moreover from r flt_sub rs_lt have "r < nxt h1" by auto
    ultimately show "entries h4 r = entries h1 r" by (simp add: h4_other h2_old)
  qed
  have same_on_rs: "filter (\<lambda>r. key (entries h2 r) \<noteq> k) ?rs = filter (\<lambda>r. key (entries h1 r) \<noteq> k) ?rs"
    by (rule filter_cong [OF refl]) (simp add: h2_old J(2))
  have "map (entries h1) flt =
          (if \<not> ctrlKey e \<and> \<not> shiftKey e then [] else filter (\<lambda>x. key x \<noteq> k) vs)"
    using map_filter_refs [of "entries h1" "\<lambda>x. key x \<noteq> k" ?rs]
    by (simp add: flt_def same_on_rs rs_vals)
  with flt_vals have kept: "map (entries h4) flt =
          (if \<not> ctrlKey e \<and> \<not> shiftKey e then [] else filter (\<lambda>x. key x \<noteq> k) vs)"
    by simp
  show "currentOrder s' =
           (if \<not> ctrlKey e \<and> \<not> shiftKey e then [] else filter (\<lambda>x. key x \<noteq> k) vs)
           @ (if st = Undefined then [] else [\<lparr>key = k, order = st\<rparr>])"
    by (simp add: currentOrder_def res readOrder_def h5_fields kept new_entry)
  show "entries (fst s') a = entries h a" if "a < nxt h" for a
  proof -
    from that entry_props have "a \<noteq> entry" by simp
    moreover from that have "a < nxt h1" by (simp add: J(1) J(2))
    ultimately show ?thesis using that
      by (simp add: res h5_fields h4_other h2_old J(6))
  qed
  show "orders (fst s') a = orders h a" if "a < nxt h" for a
  proof -
    from that h2_frame have "a \<noteq> n" "a \<noteq> c" by (simp_all add: n_def J(1) J(2))
    then show ?thesis
      by (simp add: res h5_fields h4_fields h3_fields h2_frame J(3))
  qed
  show "rowArrays (fst s') = rowArrays h"
    by (simp add: res h5_fields h4_fields h3_fields h2_frame J(4))
  show "snd s' = g\<lparr>sortOrder := sortOrder (snd s')\<rparr>"
    by (simp add: res)
  show "nxt h \<le> sortOrder (snd s')"
    using h2_frame by (simp add: res n_def J(1) J(2))
  show "sortOrder (snd s') < nxt (fst s')"
    by (simp add: res h5_fields h4_fields h3_fields)
qed


lemma click_order:
  "currentOrder (clickSortOrder e k s) =
     (if \<not> ctrlKey e \<and> \<not> shiftKey e then [] else filter (\<lambda>x. key x \<noteq> k) (currentOrder s))
     @ (if cycleColumnSortOrder (snd s) (columnState k (currentOrder s)) = Undefined then []
        else [\<lparr>key = k, order = cycleColumnSortOrder (snd s) (columnState k (currentOrder s))\<rparr>])"
  using clickSortOrder_effect(1) [of e k "fst s" "snd s"]
  by (simp only: currentOrder_def prod.collapse)

lemma click_frame:
  "a < nxt (fst s) \<Longrightarrow> entries (fst (clickSortOrder e k s)) a = entries (fst s) a"
  "a < nxt (fst s) \<Longrightarrow> orders (fst (clickSortOrder e k s)) a = orders (fst s) a"
  "rowArrays (fst (clickSortOrder e k s)) = rowArrays (fst s)"
  "nxt (fst s) \<le> sortOrder (snd (clickSortOrder e k s))"
  "sortOrder (snd (clickSortOrder e k s)) < nxt (fst (clickSortOrder e k s))"
  using clickSortOrder_effect(2) [of a "fst s" e k "snd s"]
        clickSortOrder_effect(3) [of a "fst s" e k "snd s"]
        clickSortOrder_effect(4) [of e k "fst s" "snd s"]
        clickSortOrder_effect(6) [of "fst s" e k "snd s"]
        clickSortOrder_effect(7) [of e k "fst s" "snd s"]
  by (simp_all only: prod.collapse)

lemma recomputeVisibleArea_keeps:
  "sortOrder (fst (snd (recomputeVisibleArea d h g))) = sortOrder g"
  "rows (fst (snd (recomputeVisibleArea d h g))) = rows g"
  by (simp_all add: recomputeVisibleArea_def Let_def)

lemma updateRows_keeps:
  "sortOrder (fst (updateRows f d h g)) = sortOrder g"
  "rows (fst (updateRows f d h g)) = rows g"
  using recomputeVisibleArea_keeps [of d h g]
  by (cases "recomputeVisibleArea d h g"; simp add: updateRows_def createRows_def)+

lemma onColumnHeaderClick_result:
  assumes "datasetKey e = Some k" and "k \<noteq> []"
  shows "\<exists>h' g' effs. onColumnHeaderClick H d e s = Inr (h', g', effs)
           \<and> entries h' = entries (fst (clickSortOrder e k s))
           \<and> orders h' = orders (fst (clickSortOrder e k s))
           \<and> sortOrder g' = sortOrder (snd (clickSortOrder e k s))
           \<and> (\<forall>a. a < nxt (fst (clickSortOrder e k s)) \<longrightarrow>
                  rowArrays h' a = rowArrays (fst (clickSortOrder e k s)) a)"
proof -
  obtain h1 g1 where c: "clickSortOrder e k s = (h1, g1)"
    by (cases "clickSortOrder e k s")
  let ?handled = "case onSort g1 of None \<Rightarrow> False | Some f \<Rightarrow> f (readOrder h1 (sortOrder g1))"
  let ?announced = "case onSort g1 of None \<Rightarrow> [] | Some f \<Rightarrow> [SortEvent (sortOrder g1)]"
  show ?thesis
  proof (cases ?handled)
    case True
    with assms c have "onColumnHeaderClick H d e s = Inr (h1, g1, ?announced)"
      by (simp add: onColumnHeaderClick_def)
    with c show ?thesis by simp
  next
    case False
    let ?s2 = "sortRows H (h1, g1)"
    let ?u = "updateRows True d (fst ?s2) (snd ?s2)"
    from False assms c
    have "onColumnHeaderClick H d e s = Inr (fst ?s2, fst ?u, ?announced @ snd ?u)"
      by (simp add: onColumnHeaderClick_def split: prod.splits)
    moreover have "sortOrder (fst ?u) = sortOrder g1"
      by (simp add: updateRows_keeps sortRows_result)
    moreover have "\<forall>a. a < nxt h1 \<longrightarrow> rowArrays (fst ?s2) a = rowArrays h1 a"
      by (simp add: sortRows_result)
    ultimately show ?thesis using c by (simp add: sortRows_result)
  qed
qed


lemma onColumnHeaderClick_order:
  assumes "datasetKey e = Some k" and "k \<noteq> []"
  shows "\<exists>h' g' effs. onColumnHeaderClick H d e s = Inr (h', g', effs)
           \<and> currentOrder (h', g') = currentOrder (clickSortOrder e k s)"
proof -
  from onColumnHeaderClick_result [OF assms, of H d s]
  obtain h' g' effs where "onColumnHeaderClick H d e s = Inr (h', g', effs)"
    and "entries h' = entries (fst (clickSortOrder e k s))"
    and "orders h' = orders (fst (clickSortOrder e k s))"
    and "sortOrder g' = sortOrder (snd (clickSortOrder e k s))"
    by blast
  then show ?thesis by (simp add: currentOrder_def readOrder_def)
qed

text \<open>
  C2. After a click on a column, the grid's order is: nothing of the old order when no
  modifier is held, or the old entries of the other columns in their sequence when
  one is held; followed by one entry for the clicked column with its advanced state,
  unless that state is none. From [{A, ascending}], a plain click on B gives
  [{B, ascending}], a modified click on B gives [{A, ascending}, {B, ascending}], and a
  further modified click on A gives [{B, ascending}, {A, descending}].
\<close>

theorem header_click_replaces_or_appends:
  "currentOrder (clickSortOrder e k s) =
     (if \<not> ctrlKey e \<and> \<not> shiftKey e then [] else filter (\<lambda>x. key x \<noteq> k) (currentOrder s))
     @ (if cycleColumnSortOrder (snd s) (columnState k (currentOrder s)) = Undefined then []
        else [\<lparr>key = k, order = cycleColumnSortOrder (snd s) (columnState k (currentOrder s))\<rparr>])
   \<and> (datasetKey e = Some k \<and> k \<noteq> [] \<longrightarrow>
        (\<exists>h' g' effs. onColumnHeaderClick H d e s = Inr (h', g', effs)
            \<and> currentOrder (h', g') = currentOrder (clickSortOrder e k s)))
   \<and> (currentOrder s = [\<lparr>key = ka, order = Ascending\<rparr>] \<and> ka \<noteq> kb
        \<and> \<not> ctrlKey e \<and> \<not> shiftKey e \<longrightarrow>
        currentOrder (clickSortOrder e kb s) = [\<lparr>key = kb, order = Ascending\<rparr>])
   \<and> (currentOrder s = [\<lparr>key = ka, order = Ascending\<rparr>] \<and> ka \<noteq> kb
        \<and> (ctrlKey e \<or> shiftKey e) \<longrightarrow>
        currentOrder (clickSortOrder e kb s)
          = [\<lparr>key = ka, order = Ascending\<rparr>, \<lparr>key = kb, order = Ascending\<rparr>]
        \<and> currentOrder (clickSortOrder e ka (clickSortOrder e kb s))
          = [\<lparr>key = kb, order = Ascending\<rparr>, \<lparr>key = ka, order = Descending\<rparr>])"
proof (intro conjI impI)
  show "currentOrder (clickSortOrder e k s) =
     (if \<not> ctrlKey e \<and> \<not> shiftKey e then [] else filter (\<lambda>x. key x \<noteq> k) (currentOrder s))
     @ (if cycleColumnSortOrder (snd s) (columnState k (currentOrder s)) = Undefined then []
        else [\<lparr>key = k, order = cycleColumnSortOrder (snd s) (columnState k (currentOrder s))\<rparr>])"
    by (rule click_order)
next
  assume "datasetKey e = Some k \<and> k \<noteq> []"
  then show "\<exists>h' g' effs. onColumnHeaderClick H d e s = Inr (h', g', effs)
            \<and> currentOrder (h', g') = currentOrder (clickSortOrder e k s)"
    using onColumnHeaderClick_order [of e k H d s] by simp
next
  assume "currentOrder s = [\<lparr>key = ka, order = Ascending\<rparr>] \<and> ka \<noteq> kb
        \<and> \<not> ctrlKey e \<and> \<not> shiftKey e"
  then show "currentOrder (clickSortOrder e kb s) = [\<lparr>key = kb, order = Ascending\<rparr>]"
    by (simp add: click_order columnState_def cycle_steps)
next
  assume a: "currentOrder s = [\<lparr>key = ka, order = Ascending\<rparr>] \<and> ka \<noteq> kb
        \<and> (ctrlKey e \<or> shiftKey e)"
  then show first: "currentOrder (clickSortOrder e kb s)
          = [\<lparr>key = ka, order = Ascending\<rparr>, \<lparr>key = kb, order = Ascending\<rparr>]"
    by (auto simp: click_order columnState_def cycle_steps)
  from a show "currentOrder (clickSortOrder e ka (clickSortOrder e kb s))
          = [\<lparr>key = kb, order = Ascending\<rparr>, \<lparr>key = ka, order = Descending\<rparr>]"
    by (auto simp: click_order [of e ka] first columnState_def cycle_steps)
qed

theorem header_click_replaces_or_appends_witness:
  "currentOrder (sampleHeap [], sampleGrid None) = [\<lparr>key = ''v'', order = Ascending\<rparr>]
   \<and> currentOrder (clickSortOrder plainClick ''w'' (sampleHeap [], sampleGrid None))
       = [\<lparr>key = ''w'', order = Ascending\<rparr>]
   \<and> currentOrder (clickSortOrder shiftClick ''w'' (sampleHeap [], sampleGrid None))
       = [\<lparr>key = ''v'', order = Ascending\<rparr>, \<lparr>key = ''w'', order = Ascending\<rparr>]
   \<and> currentOrder (clickSortOrder shiftClick ''v''
                      (clickSortOrder shiftClick ''w'' (sampleHeap [], sampleGrid None)))
       = [\<lparr>key = ''w'', order = Ascending\<rparr>, \<lparr>key = ''v'', order = Descending\<rparr>]
   \<and> (\<exists>h' g' effs.
         onColumnHeaderClick sampleHost sampleDom shiftClick (sampleHeap [], sampleGrid None)
           = Inr (h', g', effs)
         \<and> currentOrder (h', g') = [\<lparr>key = ''v'', order = Descending\<rparr>])"
proof -
  let ?s = "(sampleHeap [], sampleGrid None)"
  have c: "currentOrder ?s = [\<lparr>key = ''v'', order = Ascending\<rparr>]"
    by (simp add: currentOrder_def readOrder_def sampleHeap_def sampleGrid_def)
  have e: "\<not> ctrlKey plainClick" "\<not> shiftKey plainClick" "shiftKey shiftClick"
    "datasetKey shiftClick = Some ''v''"
    by (simp_all add: plainClick_def shiftClick_def)
  note p = header_click_replaces_or_appends
             [where e = plainClick and s = ?s and ka = "''v''" and kb = "''w''" and k = "''v''"
                and H = sampleHost and d = sampleDom]
  note m = header_click_replaces_or_appends
             [where e = shiftClick and s = ?s and ka = "''v''" and kb = "''w''" and k = "''v''"
                and H = sampleHost and d = sampleDom]
  from p c e have 1: "currentOrder (clickSortOrder plainClick ''w'' ?s)
       = [\<lparr>key = ''w'', order = Ascending\<rparr>]" by simp
  from m c e have 2: "currentOrder (clickSortOrder shiftClick ''w'' ?s)
       = [\<lparr>key = ''v'', order = Ascending\<rparr>, \<lparr>key = ''w'', order = Ascending\<rparr>]"
    and 3: "currentOrder (clickSortOrder shiftClick ''v'' (clickSortOrder shiftClick ''w'' ?s))
       = [\<lparr>key = ''w'', order = Ascending\<rparr>, \<lparr>key = ''v'', order = Descending\<rparr>]"
    by simp_all
  from m c e have v: "currentOrder (clickSortOrder shiftClick ''v'' ?s)
       = [\<lparr>key = ''v'', order = Descending\<rparr>]"
    by (simp add: columnState_def cycle_steps)
  have "\<exists>h' g' effs. onColumnHeaderClick sampleHost sampleDom shiftClick ?s = Inr (h', g', effs)
            \<and> currentOrder (h', g') = currentOrder (clickSortOrder shiftClick ''v'' ?s)"
    by (rule m [THEN conjunct2, THEN conjunct1, rule_format]) (simp add: e)
  with v have 4: "\<exists>h' g' effs. onColumnHeaderClick sampleHost sampleDom shiftClick ?s = Inr (h', g', effs)
            \<and> currentOrder (h', g') = [\<lparr>key = ''v'', order = Descending\<rparr>]"
    by simp
  from c 1 2 3 4 show ?thesis by (intro conjI)
qed

text \<open>
  C9. A click on a column header writes only to objects that it creates: every entry
  and every array that existed before the click is as it was. So the previous sort
  order, array and entries, reads as before, and the grid's order is another array.
\<close>

theorem header_click_keeps_previous_order:
  assumes "onColumnHeaderClick H d e (h, g) = Inr (h', g', effs)"
  shows "(\<forall>a<nxt h. entries h' a = entries h a \<and> orders h' a = orders h a
                     \<and> rowArrays h' a = rowArrays h a)
     \<and> (sortOrder g < nxt h \<and> (\<forall>r\<in>set (orders h (sortOrder g)). r < nxt h) \<longrightarrow>
          orders h' (sortOrder g) = orders h (sortOrder g)
          \<and> readOrder h' (sortOrder g) = readOrder h (sortOrder g)
          \<and> sortOrder g' \<noteq> sortOrder g)"
proof -
  from assms obtain k where k: "datasetKey e = Some k" "k \<noteq> []"
    by (cases "datasetKey e") (auto simp: onColumnHeaderClick_def split: if_splits)
  let ?c = "clickSortOrder e k (h, g)"
  from onColumnHeaderClick_result [OF k, of H d "(h, g)"] assms
  have r: "entries h' = entries (fst ?c)" "orders h' = orders (fst ?c)"
    "sortOrder g' = sortOrder (snd ?c)"
    "\<forall>a. a < nxt (fst ?c) \<longrightarrow> rowArrays h' a = rowArrays (fst ?c) a"
    by auto
  have grow: "nxt h \<le> nxt (fst ?c)"
    using click_frame(4) [of "(h, g)" e k] click_frame(5) [of e k "(h, g)"] by simp
  have old: "entries h' a = entries h a \<and> orders h' a = orders h a \<and> rowArrays h' a = rowArrays h a"
    if "a < nxt h" for a
    using that r grow click_frame(1,2) [of a "(h, g)" e k] click_frame(3) [of e k "(h, g)"]
    by simp
  have other: "sortOrder g' \<noteq> sortOrder g" if "sortOrder g < nxt h"
    using that r(3) click_frame(4) [of "(h, g)" e k] by simp
  have same: "readOrder h' (sortOrder g) = readOrder h (sortOrder g)"
    if "sortOrder g < nxt h" "\<forall>r\<in>set (orders h (sortOrder g)). r < nxt h"
    using that old by (simp add: readOrder_def)
  from old other same show ?thesis by blast
qed

theorem header_click_keeps_previous_order_witness:
  "\<exists>h' g' effs.
     onColumnHeaderClick sampleHost sampleDom shiftClick (sampleHeap [rowC, rowA], sampleGrid None)
       = Inr (h', g', effs)
     \<and> readOrder h' 0 = [\<lparr>key = ''v'', order = Ascending\<rparr>]
     \<and> orders h' 0 = [1]
     \<and> entries h' 1 = \<lparr>key = ''v'', order = Ascending\<rparr>
     \<and> sortOrder g' \<noteq> 0
     \<and> currentOrder (h', g') = [\<lparr>key = ''v'', order = Descending\<rparr>]"
proof -
  let ?h = "sampleHeap [rowC, rowA]"
  let ?g = "sampleGrid None"
  have e: "datasetKey shiftClick = Some ''v''" "''v'' \<noteq> []" "shiftKey shiftClick"
    by (simp_all add: shiftClick_def)
  have c: "currentOrder (?h, ?g) = [\<lparr>key = ''v'', order = Ascending\<rparr>]"
    by (simp add: currentOrder_def readOrder_def sampleHeap_def sampleGrid_def)
  from onColumnHeaderClick_order [OF e(1,2), of sampleHost sampleDom "(?h, ?g)"]
  obtain h' g' effs where
    r: "onColumnHeaderClick sampleHost sampleDom shiftClick (?h, ?g) = Inr (h', g', effs)"
    and o: "currentOrder (h', g') = currentOrder (clickSortOrder shiftClick ''v'' (?h, ?g))"
    by blast
  have v: "currentOrder (clickSortOrder shiftClick ''v'' (?h, ?g))
             = [\<lparr>key = ''v'', order = Descending\<rparr>]"
    by (simp add: click_order c e columnState_def cycle_steps)
  have p: "sortOrder ?g = 0" "nxt ?h = 3" "orders ?h 0 = [1]"
    "entries ?h 1 = \<lparr>key = ''v'', order = Ascending\<rparr>"
    "readOrder ?h 0 = [\<lparr>key = ''v'', order = Ascending\<rparr>]"
    by (simp_all add: sampleGrid_def sampleHeap_def readOrder_def)
  note t = header_click_keeps_previous_order [OF r]
  from t p have "readOrder h' 0 = [\<lparr>key = ''v'', order = Ascending\<rparr>]"
    and "orders h' 0 = [1]" and "sortOrder g' \<noteq> 0"
    by simp_all
  moreover have "entries h' 1 = \<lparr>key = ''v'', order = Ascending\<rparr>"
  proof -
    from t have "\<forall>a<nxt ?h. entries h' a = entries ?h a \<and> orders h' a = orders ?h a
                     \<and> rowArrays h' a = rowArrays ?h a"
      by (rule conjunct1)
    moreover have "(1::nat) < nxt ?h" by (simp add: p)
    ultimately have "entries h' 1 = entries ?h 1" by blast
    with p show ?thesis by simp
  qed
  ultimately show ?thesis using r o v by auto
qed


lemma find_filter_out:
  "find (\<lambda>x. key x = k) (filter (\<lambda>x. key x \<noteq> k) xs @ ys) = find (\<lambda>x. key x = k) ys"
  by (induction xs) simp_all

lemma click_advances_column:
  "columnState k (currentOrder (clickSortOrder e k s))
     = cycleColumnSortOrder (snd s) (columnState k (currentOrder s))"
proof -
  have "columnState k
          ((if \<not> ctrlKey e \<and> \<not> shiftKey e then [] else filter (\<lambda>x. key x \<noteq> k) (currentOrder s)) @ ys)
        = columnState k ys" for ys
    using find_filter_out [of k "currentOrder s" ys] by (simp add: columnState_def)
  then show ?thesis
    by (simp only: click_order) (simp add: columnState_def)
qed

lemma click_keeps_default:
  "cycleColumnSortOrder (snd (clickSortOrder e k s)) = cycleColumnSortOrder (snd s)"
proof -
  have "defaultSortOrder (snd (clickSortOrder e k s)) = defaultSortOrder (snd s)"
    using arg_cong [OF clickSortOrder_effect(5) [where e = e and k = k and h = "fst s" and g = "snd s"],
                    of defaultSortOrder]
    by simp
  then show ?thesis
    by (intro ext) (simp add: cycleColumnSortOrder_def)
qed

lemma clicks_follow_cycle:
  "columnState k (currentOrder ((clickSortOrder e k ^^ n) s))
     = (cycleColumnSortOrder (snd s) ^^ n) (columnState k (currentOrder s))
   \<and> cycleColumnSortOrder (snd ((clickSortOrder e k ^^ n) s)) = cycleColumnSortOrder (snd s)"
  by (induction n) (simp_all add: click_advances_column click_keeps_default)


section \<open>The cycle of a column\<close>

text \<open>
  C3. The cycle of one column: none to ascending, ascending to descending, descending
  to none when the grid has a default sort order and to ascending when it has not.
  With a default, four steps from none pass through ascending, descending, none,
  ascending; without one the states alternate and none is never reached again. Each
  click on a column takes the state of that column one step along this cycle.
\<close>

theorem cycle_with_and_without_default:
  "cycleColumnSortOrder g Undefined = Ascending
   \<and> cycleColumnSortOrder g Ascending = Descending
   \<and> (defaultSortOrder g \<noteq> None \<longrightarrow> cycleColumnSortOrder g Descending = Undefined)
   \<and> (defaultSortOrder g = None \<longrightarrow> cycleColumnSortOrder g Descending = Ascending)
   \<and> (defaultSortOrder g \<noteq> None \<longrightarrow>
        map (\<lambda>n. (cycleColumnSortOrder g ^^ n) Undefined) [0, 1, 2, 3, 4]
          = [Undefined, Ascending, Descending, Undefined, Ascending])
   \<and> (defaultSortOrder g = None \<longrightarrow>
        (\<forall>n>0. (cycleColumnSortOrder g ^^ n) Undefined
                  = (if odd n then Ascending else Descending)
                \<and> (cycleColumnSortOrder g ^^ n) Undefined \<noteq> Undefined))
   \<and> columnState k (currentOrder ((clickSortOrder e k ^^ m) s))
       = (cycleColumnSortOrder (snd s) ^^ m) (columnState k (currentOrder s))"
  using cycle_no_default_iter [of g] clicks_follow_cycle [where k = k and e = e and n = m and s = s]
  by (simp add: cycle_steps numeral_eq_Suc)

theorem cycle_with_and_without_default_witness:
  "map (\<lambda>n. (cycleColumnSortOrder (sampleGrid (Some 0)) ^^ n) Undefined) [0, 1, 2, 3, 4]
        = [Undefined, Ascending, Descending, Undefined, Ascending]
   \<and> cycleColumnSortOrder (sampleGrid (Some 0)) Descending = Undefined
   \<and> cycleColumnSortOrder (sampleGrid None) Descending = Ascending
   \<and> (cycleColumnSortOrder (sampleGrid None) ^^ 3) Undefined = Ascending
   \<and> columnState ''w''
        (currentOrder ((clickSortOrder plainClick ''w'' ^^ 3) (sampleHeap [], sampleGrid (Some 0))))
       = Undefined
   \<and> columnState ''w''
        (currentOrder ((clickSortOrder plainClick ''w'' ^^ 4) (sampleHeap [], sampleGrid (Some 0))))
       = Ascending
   \<and> columnState ''w''
        (currentOrder ((clickSortOrder plainClick ''w'' ^^ 3) (sampleHeap [], sampleGrid None)))
       = Ascending"
proof -
  have d: "defaultSortOrder (sampleGrid (Some 0)) \<noteq> None" "defaultSortOrder (sampleGrid None) = None"
    by (simp_all add: sampleGrid_def)
  have c: "columnState ''w'' (currentOrder (sampleHeap [], sampleGrid dflt)) = Undefined" for dflt
    by (simp add: columnState_def currentOrder_def readOrder_def sampleHeap_def sampleGrid_def)
  note n = cycle_with_and_without_default
             [where g = "sampleGrid None" and k = "''w''" and e = plainClick and m = 3
                and s = "(sampleHeap [], sampleGrid None)"]
  note y3 = cycle_with_and_without_default
             [where g = "sampleGrid (Some 0)" and k = "''w''" and e = plainClick and m = 3
                and s = "(sampleHeap [], sampleGrid (Some 0))"]
  note y4 = cycle_with_and_without_default
             [where g = "sampleGrid (Some 0)" and k = "''w''" and e = plainClick and m = 4
                and s = "(sampleHeap [], sampleGrid (Some 0))"]
  have s0: "cycleColumnSortOrder (sampleGrid None) Descending = Ascending"
    by (rule n [THEN conjunct2, THEN conjunct2, THEN conjunct2, THEN conjunct1, rule_format])
       (rule d(2))
  have s1: "cycleColumnSortOrder (sampleGrid (Some 0)) Descending = Undefined"
    by (rule y3 [THEN conjunct2, THEN conjunct2, THEN conjunct1, rule_format]) (rule d(1))
  have five: "map (\<lambda>n. (cycleColumnSortOrder (sampleGrid (Some 0)) ^^ n) Undefined) [0, 1, 2, 3, 4]
        = [Undefined, Ascending, Descending, Undefined, Ascending]"
    by (rule y3 [THEN conjunct2, THEN conjunct2, THEN conjunct2, THEN conjunct2, THEN conjunct1,
                 rule_format]) (rule d(1))
  have alt: "(cycleColumnSortOrder (sampleGrid None) ^^ 3) Undefined
                  = (if odd (3::nat) then Ascending else Descending)"
    by (rule n [THEN conjunct2, THEN conjunct2, THEN conjunct2, THEN conjunct2, THEN conjunct2,
             THEN conjunct1, rule_format, THEN conjunct1]) (simp_all add: d(2))
  then have three: "(cycleColumnSortOrder (sampleGrid None) ^^ 3) Undefined = Ascending"
    by simp
  from five have i3: "(cycleColumnSortOrder (sampleGrid (Some 0)) ^^ 3) Undefined = Undefined"
    and i4: "(cycleColumnSortOrder (sampleGrid (Some 0)) ^^ 4) Undefined = Ascending"
    by simp_all
  note last = conjunct2 [THEN conjunct2, THEN conjunct2, THEN conjunct2, THEN conjunct2, THEN conjunct2]
  have k3: "columnState ''w''
        (currentOrder ((clickSortOrder plainClick ''w'' ^^ 3) (sampleHeap [], sampleGrid (Some 0))))
       = Undefined"
    using y3 [THEN last] by (simp only: c snd_conv i3)
  have k4: "columnState ''w''
        (currentOrder ((clickSortOrder plainClick ''w'' ^^ 4) (sampleHeap [], sampleGrid (Some 0))))
       = Ascending"
    using y4 [THEN last] by (simp only: c snd_conv i4)
  have k0: "columnState ''w''
        (currentOrder ((clickSortOrder plainClick ''w'' ^^ 3) (sampleHeap [], sampleGrid None)))
       = Ascending"
    using n [THEN last] by (simp only: c snd_conv three)
  from five s1 s0 three k3 k4 k0 show ?thesis by (intro conjI)
qed

end
